theory Spec2Isabelle
  imports Complex_Main
begin

section \<open>Python's decimal arithmetic, as far as the grid strategy uses it\<close>

text \<open>
  The grid strategy (\<^verbatim>\<open>aster_log_grid_strategy.py\<close>) computes with
  \<^verbatim>\<open>decimal.Decimal\<close> under the default context: 28 significant digits,
  rounding half-even, \<^verbatim>\<open>InvalidOperation\<close>, \<^verbatim>\<open>DivisionByZero\<close> and
  \<^verbatim>\<open>Overflow\<close> trapped (raised as exceptions).

  A finite Decimal is modelled by its numeric value, a rational number: comparison,
  equality and hashing of Decimals are by value (\<^verbatim>\<open>Decimal('0.6') == Decimal('0.6000')\<close>),
  so nothing the strategy decides depends on the representation. The sign of a zero is
  not kept. The exponent range of the context (\<open>10 ^ 999999\<close>) is not modelled: no value
  derived from a price comes near it.
\<close>

datatype py_error =
  InvalidOperation | DivisionByZero | Overflow | OverflowError | KeyError | TypeError | ValueError

datatype rounding = ROUND_DOWN | ROUND_HALF_EVEN

definition prec :: nat where
  "prec = 28"

text \<open>Rounding a rational to an integer: toward zero, and to nearest with ties to even.\<close>

definition round_down :: "rat \<Rightarrow> int" where
  "round_down x = (if 0 \<le> x then \<lfloor>x\<rfloor> else \<lceil>x\<rceil>)"

definition round_half_even :: "rat \<Rightarrow> int" where
  "round_half_even x =
     (let f = \<lfloor>x\<rfloor>; d = x - of_int f
      in if d < 1 / 2 then f
         else if 1 / 2 < d then f + 1
         else if even f then f else f + 1)"

fun round_to_int :: "rounding \<Rightarrow> rat \<Rightarrow> int" where
  "round_to_int ROUND_DOWN x = round_down x"
| "round_to_int ROUND_HALF_EVEN x = round_half_even x"

text \<open>
  \<^verbatim>\<open>x.quantize(q, rounding=r)\<close> for a quantum \<open>q\<close> that is a power of ten with
  coefficient 1 (both precision constants of the script are): the result has the
  exponent of \<open>q\<close>, so it is an integer multiple of \<open>q\<close>; the operation raises
  \<^verbatim>\<open>InvalidOperation\<close> when the coefficient of the result would have more digits than
  the context precision.
\<close>

definition quantize :: "rounding \<Rightarrow> rat \<Rightarrow> rat \<Rightarrow> py_error + rat" where
  "quantize r q x =
     (let c = round_to_int r (x / q)
      in if 10 ^ prec \<le> \<bar>c\<bar> then Inl InvalidOperation else Inr (of_int c * q))"

text \<open>
  The result of an arithmetic operation is rounded to \<open>prec\<close> significant digits,
  half-even. \<open>adjusted x\<close> is the exponent of the leading digit of \<open>x\<close>
  (\<^verbatim>\<open>Decimal.adjusted()\<close>), computed from the number of decimal digits of an integer.
\<close>

definition pow10 :: "int \<Rightarrow> rat" where
  "pow10 e = (if 0 \<le> e then 10 ^ nat e else 1 / 10 ^ nat (- e))"

function digits :: "int \<Rightarrow> nat" where
  "digits n = (if n < 10 then 1 else Suc (digits (n div 10)))"
  by pat_completeness auto
termination
  by (relation "measure nat") auto

declare digits.simps [simp del]

definition adjusted :: "rat \<Rightarrow> int" where
  "adjusted x =
     (let a = \<bar>x\<bar>
      in if 1 \<le> a then int (digits \<lfloor>a\<rfloor>) - 1
         else - int (digits (\<lceil>1 / a\<rceil> - 1)))"

definition round_prec :: "rat \<Rightarrow> rat" where
  "round_prec x =
     (if x = 0 then 0
      else let e = adjusted x - (int prec - 1)
           in of_int (round_half_even (x / pow10 e)) * pow10 e)"

definition dec_div :: "rat \<Rightarrow> rat \<Rightarrow> py_error + rat" where
  "dec_div a b =
     (if b = 0 then Inl (if a = 0 then InvalidOperation else DivisionByZero)
      else Inr (round_prec (a / b)))"

definition dec_mul :: "rat \<Rightarrow> rat \<Rightarrow> rat" where
  "dec_mul a b = round_prec (a * b)"

definition dec_sub :: "rat \<Rightarrow> rat \<Rightarrow> rat" where
  "dec_sub a b = round_prec (a - b)"

definition dec_abs :: "rat \<Rightarrow> rat" where
  "dec_abs a = round_prec \<bar>a\<bar>"

text \<open>
  \<^verbatim>\<open>x ** y\<close>. For the exponents 0 and 1 the result is fixed by the arithmetic
  (\<open>x ** 0 = 1\<close> for \<open>x \<noteq> 0\<close>, \<open>0 ** 0\<close> is an invalid operation, \<open>x ** 1\<close> is \<open>x\<close>
  rounded to the context). For any other exponent the library computes an inexact
  result whose last digit depends on its implementation; that part is a parameter
  \<open>pw\<close> of the model, and the general theorems below hold for every such function.
\<close>

type_synonym power_fn = "rat \<Rightarrow> rat \<Rightarrow> py_error + rat"

definition dec_pow :: "power_fn \<Rightarrow> rat \<Rightarrow> rat \<Rightarrow> py_error + rat" where
  "dec_pow pw x y =
     (if y = 0 then (if x = 0 then Inl InvalidOperation else Inr 1)
      else if y = 1 then Inr (round_prec x)
      else pw x y)"

section \<open>Precision settings\<close>

definition PRICE_PRECISION :: rat where
  "PRICE_PRECISION = 1 / 10000"

definition QUANTITY_PRECISION :: rat where
  "QUANTITY_PRECISION = 1"

definition TICK_SIZE :: rat where
  "TICK_SIZE = 1 / 10000"

section \<open>Placing a limit order\<close>

text \<open>
  \<^verbatim>\<open>place_limit_order(symbol, side, quantity, price)\<close> formats price and quantity,
  builds the request parameters and hands them to the signed transport. The model
  returns the parameters it would send (the order intent); the transport is outside.
  The fields \<open>quantity\<close> and \<open>price\<close> hold the Decimal values whose \<^verbatim>\<open>str\<close> is sent.
\<close>

record order_params =
  symbol :: string
  side :: string
  type :: string
  quantity :: rat
  price :: rat
  timeInForce :: string

text \<open>
  \<^verbatim>\<open>side.upper()\<close> on ASCII text: the letters a to z are mapped to A to Z and every other
  character is kept. The loop passes the literals \<^verbatim>\<open>'BUY'\<close> and \<^verbatim>\<open>'SELL'\<close> only;
  characters outside ASCII, which \<^verbatim>\<open>str.upper\<close> maps by the Unicode tables, are not
  modelled.
\<close>

definition upper_char :: "char \<Rightarrow> char" where
  "upper_char c =
     (let n = (of_char c :: nat)
      in if 97 \<le> n \<and> n \<le> 122 then char_of (n - 32) else c)"

definition upper :: "string \<Rightarrow> string" where
  "upper s = map upper_char s"

definition place_limit_order :: "string \<Rightarrow> string \<Rightarrow> rat \<Rightarrow> rat \<Rightarrow> py_error + order_params" where
  "place_limit_order smb sd qty prc =
     (case quantize ROUND_DOWN PRICE_PRECISION prc of
        Inl e \<Rightarrow> Inl e
      | Inr formatted_price \<Rightarrow>
          (case quantize ROUND_DOWN QUANTITY_PRECISION qty of
             Inl e \<Rightarrow> Inl e
           | Inr formatted_quantity \<Rightarrow>
               Inr \<lparr>symbol = smb, side = upper sd, type = ''LIMIT'',
                    quantity = formatted_quantity, price = formatted_price,
                    timeInForce = ''GTC''\<rparr>))"

section \<open>Grid calculation\<close>

text \<open>A list comprehension whose element expression may raise: the first exception ends it.\<close>

fun map_result :: "('a \<Rightarrow> py_error + 'b) \<Rightarrow> 'a list \<Rightarrow> py_error + 'b list" where
  "map_result f [] = Inr []"
| "map_result f (x # xs) =
     (case f x of
        Inl e \<Rightarrow> Inl e
      | Inr y \<Rightarrow> (case map_result f xs of Inl e \<Rightarrow> Inl e | Inr ys \<Rightarrow> Inr (y # ys)))"

text \<open>
  The body of the \<^verbatim>\<open>try\<close> block of \<^verbatim>\<open>calculate_grid_levels\<close>:
  \<^verbatim>\<open>ratio = (upper_price / lower_price) ** (Decimal(1) / Decimal(str(num_grids)))\<close> and
  \<^verbatim>\<open>levels = [lower_price * (ratio ** Decimal(str(i))) for i in range(num_grids + 1)]\<close>.
\<close>

definition grid_ratio :: "power_fn \<Rightarrow> rat \<Rightarrow> rat \<Rightarrow> int \<Rightarrow> py_error + rat" where
  "grid_ratio pw upper_price lower_price num_grids =
     (case dec_div upper_price lower_price of
        Inl e \<Rightarrow> Inl e
      | Inr q \<Rightarrow>
          (case dec_div 1 (of_int num_grids) of
             Inl e \<Rightarrow> Inl e
           | Inr y \<Rightarrow> dec_pow pw q y))"

definition raw_level :: "power_fn \<Rightarrow> rat \<Rightarrow> rat \<Rightarrow> nat \<Rightarrow> py_error + rat" where
  "raw_level pw lower_price ratio i =
     (case dec_pow pw ratio (of_nat i) of
        Inl e \<Rightarrow> Inl e
      | Inr p \<Rightarrow> Inr (dec_mul lower_price p))"

definition raw_levels :: "power_fn \<Rightarrow> rat \<Rightarrow> rat \<Rightarrow> int \<Rightarrow> py_error + rat list" where
  "raw_levels pw upper_price lower_price num_grids =
     (case grid_ratio pw upper_price lower_price num_grids of
        Inl e \<Rightarrow> Inl e
      | Inr ratio \<Rightarrow> map_result (raw_level pw lower_price ratio) [0..<nat (num_grids + 1)])"

text \<open>\<^verbatim>\<open>sorted(formatted_levels, reverse=True)\<close>.\<close>

definition sort_desc :: "rat list \<Rightarrow> rat list" where
  "sort_desc xs = rev (sort xs)"

text \<open>\<^verbatim>\<open>tolerance = PRICE_PRECISION / 2\<close>; the quotient 0.00005 is exact.\<close>

definition tolerance :: rat where
  "tolerance = PRICE_PRECISION / 2"

text \<open>
  The loop over \<^verbatim>\<open>range(1, len(temp_sorted))\<close>: element \<open>i\<close> is appended when it
  differs from element \<open>i - 1\<close> of the sorted list (kept or not) by more than the
  tolerance. \<open>prev\<close> is \<^verbatim>\<open>temp_sorted[i-1]\<close>.
\<close>

fun unique_from :: "rat \<Rightarrow> rat list \<Rightarrow> rat list" where
  "unique_from prev [] = []"
| "unique_from prev (x # xs) =
     (if tolerance < dec_abs (dec_sub x prev) then x # unique_from x xs
      else unique_from x xs)"

definition unique_levels :: "rat list \<Rightarrow> rat list" where
  "unique_levels temp_sorted =
     (case temp_sorted of [] \<Rightarrow> [] | first # rest \<Rightarrow> first # unique_from first rest)"

text \<open>
  \<^verbatim>\<open>calculate_grid_levels(upper_price, lower_price, num_grids)\<close>. The arguments are
  the Decimal values of \<^verbatim>\<open>Decimal(str(upper_price))\<close> and
  \<^verbatim>\<open>Decimal(str(lower_price))\<close>. \<open>Inr []\<close> is the error return of the function
  (it prints an error and returns the empty list); \<open>Inl e\<close> is an exception that
  leaves the function: only \<^verbatim>\<open>InvalidOperation\<close> and \<^verbatim>\<open>OverflowError\<close> are
  caught, and only around the computation of the raw levels.
\<close>

definition calculate_grid_levels :: "power_fn \<Rightarrow> rat \<Rightarrow> rat \<Rightarrow> int \<Rightarrow> py_error + rat list" where
  "calculate_grid_levels pw upper_price lower_price num_grids =
     (if upper_price \<le> lower_price \<or> num_grids < 1 then Inr []
      else if lower_price \<le> 0 then Inr []
      else case raw_levels pw upper_price lower_price num_grids of
             Inl e \<Rightarrow> (if e = InvalidOperation \<or> e = OverflowError then Inr [] else Inl e)
           | Inr levels \<Rightarrow>
               (case map_result (quantize ROUND_DOWN PRICE_PRECISION) levels of
                  Inl e \<Rightarrow> Inl e
                | Inr formatted_levels \<Rightarrow> Inr (unique_levels (sort_desc formatted_levels))))"

section \<open>The grid maintenance loop\<close>

text \<open>
  The open orders are the exchange's answer as \<^verbatim>\<open>response.json()\<close> decodes it: a list
  of dictionaries whose values are JSON values. A JSON number is decoded to an \<^verbatim>\<open>int\<close>
  or a \<^verbatim>\<open>float\<close>; a float is carried as the Decimal that \<^verbatim>\<open>decimal.Decimal\<close>
  makes of it, which is its exact value (or a special value for the literals
  \<^verbatim>\<open>Infinity\<close> and \<^verbatim>\<open>NaN\<close>, which the decoder accepts).
\<close>

datatype decimal = Finite rat | Infinity | NaN | sNaN

datatype json =
  JNull | JBool bool | JInt int | JFloat decimal | JString string
  | JArray "json list" | JObject "(string \<times> json) list"

text \<open>
  The constructor \<^verbatim>\<open>decimal.Decimal(value)\<close>. What it makes of a string (the grammar
  of numerals) and of a list (a triple of sign, digits and exponent) is a parameter \<open>D\<close>
  of the model: \<open>from_string D s = None\<close> when the constructor raises
  \<^verbatim>\<open>InvalidOperation\<close> for the string, and otherwise the Decimal it returns, which may
  be a special value; \<open>from_sequence D xs\<close> is the exception or the Decimal for a list.
  On the other values the constructor is fixed: an integer and a float are converted
  exactly, \<^verbatim>\<open>True\<close> and \<^verbatim>\<open>False\<close> are the integers 1 and 0, and for
  \<^verbatim>\<open>None\<close> and for a dictionary it raises \<^verbatim>\<open>TypeError\<close>.
\<close>

record decimal_parser =
  from_string :: "string \<Rightarrow> decimal option"
  from_sequence :: "json list \<Rightarrow> py_error + decimal"

fun Decimal :: "decimal_parser \<Rightarrow> json \<Rightarrow> py_error + decimal" where
  "Decimal D (JString s) =
     (case from_string D s of None \<Rightarrow> Inl InvalidOperation | Some d \<Rightarrow> Inr d)"
| "Decimal D (JInt n) = Inr (Finite (of_int n))"
| "Decimal D (JFloat d) = Inr d"
| "Decimal D (JBool b) = Inr (Finite (if b then 1 else 0))"
| "Decimal D (JArray xs) = from_sequence D xs"
| "Decimal D JNull = Inl TypeError"
| "Decimal D (JObject members) = Inl TypeError"

fun quantize_decimal :: "rounding \<Rightarrow> rat \<Rightarrow> decimal \<Rightarrow> py_error + decimal" where
  "quantize_decimal r q (Finite x) =
     (case quantize r q x of Inl e \<Rightarrow> Inl e | Inr y \<Rightarrow> Inr (Finite y))"
| "quantize_decimal r q Infinity = Inl InvalidOperation"
| "quantize_decimal r q NaN = Inr NaN"
| "quantize_decimal r q sNaN = Inl InvalidOperation"

text \<open>An open order is the dictionary of its fields.\<close>

type_synonym open_order = "string \<rightharpoonup> json"

type_synonym price_sets = "string \<rightharpoonup> decimal set"

definition no_open_prices :: price_sets where
  "no_open_prices = [''BUY'' \<mapsto> {}, ''SELL'' \<mapsto> {}]"

text \<open>A value that can be a dictionary key: a list and a dictionary cannot be hashed.\<close>

fun hashable :: "json \<Rightarrow> bool" where
  "hashable (JArray xs) = False"
| "hashable (JObject members) = False"
| "hashable v = True"

text \<open>
  \<^verbatim>\<open>open_order_prices[key]\<close>: \<^verbatim>\<open>TypeError\<close> for a key that cannot be hashed,
  \<^verbatim>\<open>KeyError\<close> for a key that is not in the dictionary (its keys are strings).
\<close>

definition getitem :: "price_sets \<Rightarrow> json \<Rightarrow> py_error + string \<times> decimal set" where
  "getitem prices key =
     (if \<not> hashable key then Inl TypeError
      else case key of
             JString sd \<Rightarrow> (case prices sd of None \<Rightarrow> Inl KeyError | Some ps \<Rightarrow> Inr (sd, ps))
           | _ \<Rightarrow> Inl KeyError)"

text \<open>
  The body of the \<^verbatim>\<open>try\<close> inside the loop over the open orders:
  \<^verbatim>\<open>order_price = decimal.Decimal(order['price']).quantize(PRICE_PRECISION)\<close>, then
  \<^verbatim>\<open>open_order_prices[order['side']].add(order_price)\<close>.
\<close>

definition add_open_order :: "decimal_parser \<Rightarrow> price_sets \<Rightarrow> open_order \<Rightarrow> py_error + price_sets" where
  "add_open_order D prices order =
     (case order ''price'' of
        None \<Rightarrow> Inl KeyError
      | Some v \<Rightarrow>
          (case Decimal D v of
             Inl e \<Rightarrow> Inl e
           | Inr d \<Rightarrow>
               (case quantize_decimal ROUND_HALF_EVEN PRICE_PRECISION d of
                  Inl e \<Rightarrow> Inl e
                | Inr order_price \<Rightarrow>
                    (case order ''side'' of
                       None \<Rightarrow> Inl KeyError
                     | Some key \<Rightarrow>
                         (case getitem prices key of
                            Inl e \<Rightarrow> Inl e
                          | Inr (sd, ps) \<Rightarrow> Inr (prices(sd \<mapsto> insert order_price ps)))))))"

text \<open>
  The loop over \<^verbatim>\<open>open_orders_list\<close>. \<^verbatim>\<open>KeyError\<close> and \<^verbatim>\<open>InvalidOperation\<close>
  are caught: the order is skipped and a warning naming its \<^verbatim>\<open>orderId\<close> is printed.
  Any other exception leaves the loop; the handler of the main loop catches it.
\<close>

record scan =
  open_order_prices :: price_sets
  warned :: "json option list"

fun scan_open_orders :: "decimal_parser \<Rightarrow> open_order list \<Rightarrow> scan \<Rightarrow> py_error + scan" where
  "scan_open_orders D [] st = Inr st"
| "scan_open_orders D (order # rest) st =
     (case add_open_order D (open_order_prices st) order of
        Inr prices \<Rightarrow> scan_open_orders D rest (st\<lparr>open_order_prices := prices\<rparr>)
      | Inl e \<Rightarrow>
          (if e = KeyError \<or> e = InvalidOperation
           then scan_open_orders D rest (st\<lparr>warned := warned st @ [order ''orderId'']\<rparr>)
           else Inl e))"

definition new_scan :: scan where
  "new_scan = \<lparr>open_order_prices = no_open_prices, warned = []\<rparr>"

definition TARGET_SYMBOL :: string where
  "TARGET_SYMBOL = ''CRVUSDT''"

definition ORDER_QTY_PER_GRID :: rat where
  "ORDER_QTY_PER_GRID = 10"

text \<open>
  The transport: whether the exchange answers a request with an \<^verbatim>\<open>orderId\<close>. The
  state of one cycle: the requests handed to the transport so far, in order, and the
  counter \<^verbatim>\<open>placed_orders_this_cycle\<close>.
\<close>

type_synonym transport = "order_params \<Rightarrow> bool"

record cycle =
  sent :: "order_params list"
  placed_orders_this_cycle :: nat

definition new_cycle :: cycle where
  "new_cycle = \<lparr>sent = [], placed_orders_this_cycle = 0\<rparr>"

text \<open>One branch of the loop body: the level wants an order of side \<open>sd\<close>.\<close>

definition place_missing :: "transport \<Rightarrow> price_sets \<Rightarrow> string \<Rightarrow> rat \<Rightarrow> cycle \<Rightarrow> py_error + cycle" where
  "place_missing net prices sd level_price st =
     (case quantize ROUND_HALF_EVEN PRICE_PRECISION level_price of
        Inl e \<Rightarrow> Inl e
      | Inr level_quantized \<Rightarrow>
          (case prices sd of
             None \<Rightarrow> Inl KeyError
           | Some ps \<Rightarrow>
               if Finite level_quantized \<notin> ps
               then (case place_limit_order TARGET_SYMBOL sd ORDER_QTY_PER_GRID level_quantized of
                       Inl e \<Rightarrow> Inl e
                     | Inr params \<Rightarrow>
                         Inr \<lparr>sent = sent st @ [params],
                              placed_orders_this_cycle =
                                (if net params then Suc (placed_orders_this_cycle st)
                                 else placed_orders_this_cycle st)\<rparr>)
               else Inr st))"

definition maintain_level :: "transport \<Rightarrow> rat \<Rightarrow> price_sets \<Rightarrow> rat \<Rightarrow> cycle \<Rightarrow> py_error + cycle" where
  "maintain_level net current_price prices level_price st =
     (if level_price < current_price then place_missing net prices ''BUY'' level_price st
      else if current_price < level_price then place_missing net prices ''SELL'' level_price st
      else Inr st)"

text \<open>
  The loop over \<^verbatim>\<open>grid_levels\<close>. An exception ends the cycle (the handler of the main
  loop prints it); the requests already sent stay sent.
\<close>

fun maintain_grid :: "transport \<Rightarrow> rat \<Rightarrow> price_sets \<Rightarrow> rat list \<Rightarrow> cycle \<Rightarrow> cycle \<times> py_error option" where
  "maintain_grid net current_price prices [] st = (st, None)"
| "maintain_grid net current_price prices (level_price # rest) st =
     (case maintain_level net current_price prices level_price st of
        Inl e \<Rightarrow> (st, Some e)
      | Inr st' \<Rightarrow> maintain_grid net current_price prices rest st')"

text \<open>
  One pass of the main loop. \<open>current_price\<close> is \<open>None\<close> when
  \<^verbatim>\<open>get_current_price\<close> returned nothing: the cycle is skipped.
\<close>

definition grid_tick :: "transport \<Rightarrow> decimal_parser \<Rightarrow> rat list \<Rightarrow> rat option \<Rightarrow> open_order list \<Rightarrow> cycle \<times> py_error option" where
  "grid_tick net D grid_levels current_price open_orders_list =
     (case current_price of
        None \<Rightarrow> (new_cycle, None)
      | Some cur \<Rightarrow>
          (case scan_open_orders D open_orders_list new_scan of
             Inl e \<Rightarrow> (new_cycle, Some e)
           | Inr sc \<Rightarrow> maintain_grid net cur (open_order_prices sc) grid_levels new_cycle))"

text \<open>
  The main loop over the successive observations (transport, price, open orders):
  the grid levels are fixed, every pass starts from a new cycle.
\<close>

fun main_loop :: "decimal_parser \<Rightarrow> rat list \<Rightarrow> (transport \<times> rat option \<times> open_order list) list \<Rightarrow> (cycle \<times> py_error option) list" where
  "main_loop D grid_levels [] = []"
| "main_loop D grid_levels ((net, current_price, open_orders_list) # later) =
     grid_tick net D grid_levels current_price open_orders_list # main_loop D grid_levels later"

section \<open>Notions of the specification\<close>

text \<open>A pending placement: the level and the side of a request.\<close>

definition placement :: "order_params \<Rightarrow> rat \<times> string" where
  "placement p = (price p, side p)"

definition placements :: "cycle \<times> py_error option \<Rightarrow> (rat \<times> string) list" where
  "placements r = map placement (sent (fst r))"

text \<open>
  \<open>reconcile\<close>: the placements of one pass, as a function of the price, the levels and
  the open orders alone (the transport that refuses every request stands for any).
\<close>

definition reconcile :: "decimal_parser \<Rightarrow> rat \<Rightarrow> rat list \<Rightarrow> open_order list \<Rightarrow> (rat \<times> string) list" where
  "reconcile D current_price grid_levels open_orders_list =
     placements (grid_tick (\<lambda>p. False) D grid_levels (Some current_price) open_orders_list)"

text \<open>
  \<open>reconcile\<close> as the specification words it, over the predicates "an open BUY sits
  at the level" and "an open SELL sits at the level".
\<close>

definition reconcile_spec :: "rat \<Rightarrow> rat list \<Rightarrow> (rat \<Rightarrow> bool) \<Rightarrow> (rat \<Rightarrow> bool) \<Rightarrow> (rat \<times> string) list" where
  "reconcile_spec current_price levels open_buy open_sell =
     concat (map (\<lambda>L. if L < current_price \<and> \<not> open_buy L then [(L, ''BUY'')]
                      else if current_price < L \<and> \<not> open_sell L then [(L, ''SELL'')]
                      else []) levels)"

text \<open>A price level on the price grid: a multiple of the quantum within the precision.\<close>

definition on_grid :: "rat \<Rightarrow> bool" where
  "on_grid x = (let c = x / PRICE_PRECISION in of_int \<lfloor>c\<rfloor> = c \<and> \<bar>c\<bar> < 10 ^ prec)"

text \<open>
  The side and quantized price under which an open order counts, if it counts at all.
\<close>

definition order_key :: "decimal_parser \<Rightarrow> open_order \<Rightarrow> (string \<times> decimal) option" where
  "order_key D order =
     (case order ''price'' of
        None \<Rightarrow> None
      | Some v \<Rightarrow>
          (case Decimal D v of
             Inl e \<Rightarrow> None
           | Inr d \<Rightarrow>
               (case quantize_decimal ROUND_HALF_EVEN PRICE_PRECISION d of
                  Inl e \<Rightarrow> None
                | Inr p \<Rightarrow>
                    (case order ''side'' of
                       Some (JString sd) \<Rightarrow> if sd = ''BUY'' \<or> sd = ''SELL'' then Some (sd, p) else None
                     | _ \<Rightarrow> None))))"

text \<open>The dictionary \<^verbatim>\<open>open_order_prices\<close> with the given sets under its two keys.\<close>

definition both_sides :: "decimal set \<Rightarrow> decimal set \<Rightarrow> price_sets" where
  "both_sides B S = [''BUY'' \<mapsto> B, ''SELL'' \<mapsto> S]"

definition side_prices :: "decimal_parser \<Rightarrow> open_order list \<Rightarrow> string \<Rightarrow> decimal set" where
  "side_prices D open_orders_list sd = {p. Some (sd, p) \<in> order_key D ` set open_orders_list}"

definition open_at :: "decimal_parser \<Rightarrow> open_order list \<Rightarrow> string \<Rightarrow> rat \<Rightarrow> bool" where
  "open_at D open_orders_list sd L = (Some (sd, Finite L) \<in> order_key D ` set open_orders_list)"

text \<open>
  An order whose price cannot be read: the field is missing, or the constructor or the
  quantization raises \<^verbatim>\<open>InvalidOperation\<close> (a string that is no numeral, an infinity,
  a number of more digits than the precision).
\<close>

definition unparsable :: "decimal_parser \<Rightarrow> open_order \<Rightarrow> bool" where
  "unparsable D order =
     (case order ''price'' of
        None \<Rightarrow> True
      | Some v \<Rightarrow>
          (case Decimal D v of
             Inl e \<Rightarrow> e = InvalidOperation
           | Inr d \<Rightarrow> quantize_decimal ROUND_HALF_EVEN PRICE_PRECISION d = Inl InvalidOperation))"

text \<open>
  An order as the exchange documents it, and a little more: the price, if present, is a
  string, a number or a boolean, and the side, if present, is no list and no dictionary.
\<close>

fun scalar :: "json \<Rightarrow> bool" where
  "scalar (JString s) = True"
| "scalar (JInt n) = True"
| "scalar (JFloat d) = True"
| "scalar (JBool b) = True"
| "scalar v = False"

definition readable :: "open_order \<Rightarrow> bool" where
  "readable order =
     ((case order ''price'' of None \<Rightarrow> True | Some v \<Rightarrow> scalar v) \<and>
      (case order ''side'' of None \<Rightarrow> True | Some key \<Rightarrow> hashable key))"

text \<open>
  The exception with which an open order ends the scan, if it does, and the one with
  which the scan of a list of orders ends.
\<close>

definition order_error :: "decimal_parser \<Rightarrow> open_order \<Rightarrow> py_error option" where
  "order_error D order =
     (case add_open_order D no_open_prices order of
        Inl e \<Rightarrow> if e = KeyError \<or> e = InvalidOperation then None else Some e
      | Inr prices \<Rightarrow> None)"

fun scan_error :: "decimal_parser \<Rightarrow> open_order list \<Rightarrow> py_error option" where
  "scan_error D [] = None"
| "scan_error D (order # rest) =
     (case order_error D order of Some e \<Rightarrow> Some e | None \<Rightarrow> scan_error D rest)"

text \<open>
  Deduplication as the specification words it: walk the sorted levels and drop a level
  whose distance from the previous kept level is at most half the quantum.
\<close>

fun drop_close :: "rat \<Rightarrow> rat list \<Rightarrow> rat list" where
  "drop_close kept [] = []"
| "drop_close kept (x # xs) =
     (if \<bar>x - kept\<bar> \<le> PRICE_PRECISION / 2 then drop_close kept xs
      else x # drop_close x xs)"

definition deduplicate_spec :: "rat list \<Rightarrow> rat list" where
  "deduplicate_spec xs = (case xs of [] \<Rightarrow> [] | x # rest \<Rightarrow> x # drop_close x rest)"

definition valid_config :: "rat \<Rightarrow> rat \<Rightarrow> int \<Rightarrow> bool" where
  "valid_config upper_price lower_price num_grids =
     (lower_price < upper_price \<and> 0 < lower_price \<and> 1 \<le> num_grids)"

text \<open>A power function that returns no negative number for a base that is not negative.\<close>

definition pw_nonneg :: "power_fn \<Rightarrow> bool" where
  "pw_nonneg pw = (\<forall>x y r. 0 \<le> x \<and> pw x y = Inr r \<longrightarrow> 0 \<le> r)"

text \<open>
  A power function that is accurate to one unit in the 28th digit, as the library
  documents its power: for a positive base the result differs from the real power by at
  most \<open>10 ^ -27\<close> of it.
\<close>

definition pw_accurate :: "power_fn \<Rightarrow> bool" where
  "pw_accurate pw =
     (\<forall>x y r. 0 < x \<and> pw x y = Inr r \<longrightarrow>
        \<bar>real_of_rat r - real_of_rat x powr real_of_rat y\<bar> \<le>
          real_of_rat x powr real_of_rat y / 10 ^ 27)"

section \<open>The power function at the arguments of the script's configuration\<close>

text \<open>
  The library's power at the arguments that \<^verbatim>\<open>calculate_grid_levels(0.70, 0.60, 10)\<close>
  reaches: the tenth root of the quotient of the prices, and the powers 2 to 10 of that
  root. The values are those that the \<^verbatim>\<open>decimal\<close> module of CPython returns; each is
  the exact value rounded to the context (lemmas \<open>tenth_root_rounded\<close> and
  \<open>tenth_root_powers_rounded\<close>). The function stands for the library at these arguments
  only: at any other argument it raises, which the library does not.
\<close>

definition ratio_70_60 :: rat where
  "ratio_70_60 = 1166666666666666666666666667 / 10 ^ 27"

definition tenth_root_70_60 :: rat where
  "tenth_root_70_60 = 1015534493002352455906156671 / 10 ^ 27"

definition tenth_root_powers :: "(nat \<times> rat) list" where
  "tenth_root_powers =
     [(2, 1031310306477545049231932875 / 10 ^ 27),
      (3, 1047331189216774439477964339 / 10 ^ 27),
      (4, 1063600948246807897932388791 / 10 ^ 27),
      (5, 1080123449734643371827661238 / 10 ^ 27),
      (6, 1096902619906222983933521018 / 10 ^ 27),
      (7, 1113942445979418280580552533 / 10 ^ 27),
      (8, 1131246977111508932490466054 / 10 ^ 27),
      (9, 1148820325361380036854304521 / 10 ^ 27),
      (10, 1166666666666666666666666663 / 10 ^ 27)]"

definition decimal_power :: power_fn where
  "decimal_power x y =
     (if x = ratio_70_60 \<and> y = 1 / 10 then Inr tenth_root_70_60
      else if x = tenth_root_70_60 \<and> y = of_int \<lfloor>y\<rfloor> \<and> 0 \<le> y
      then (case map_of tenth_root_powers (nat \<lfloor>y\<rfloor>) of
              None \<Rightarrow> Inl InvalidOperation
            | Some p \<Rightarrow> Inr p)
      else Inl InvalidOperation)"

text \<open>The raw levels and the grid levels of that configuration.\<close>

definition example_raw_levels :: "rat list" where
  "example_raw_levels =
     [6000000000000000000000000000 / 10 ^ 28,
      6093206958014114735436940026 / 10 ^ 28,
      6187861838865270295391597250 / 10 ^ 28,
      6283987135300646636867786034 / 10 ^ 28,
      6381605689480847387594332746 / 10 ^ 28,
      6480740698407860230965967428 / 10 ^ 28,
      6581415719437337903601126108 / 10 ^ 28,
      6683654675876509683483315198 / 10 ^ 28,
      6787481862669053594942796324 / 10 ^ 28,
      6892921952168280221125827126 / 10 ^ 28,
      6999999999999999999999999978 / 10 ^ 28]"

definition example_grid_levels :: "rat list" where
  "example_grid_levels =
     [6999 / 10000, 6892 / 10000, 6787 / 10000, 6683 / 10000, 6581 / 10000, 6480 / 10000, 6381 / 10000, 6283 / 10000, 6187 / 10000, 6093 / 10000, 6000 / 10000]"

section \<open>An example snapshot of open orders\<close>

text \<open>
  A constructor that reads the three price strings of the example as
  \<^verbatim>\<open>decimal.Decimal\<close> does and raises for any other string (it is applied to the
  strings of the example only, and to no list), and four open orders: a BUY at 0.6200, a
  SELL at 0.68, an order whose price is not a number, and an order whose price is the
  JSON value \<^verbatim>\<open>null\<close>.
\<close>

definition example_parser :: decimal_parser where
  "example_parser =
     \<lparr>from_string =
        (\<lambda>s. if s = ''0.6200'' then Some (Finite (6200 / 10000))
             else if s = ''0.68'' then Some (Finite (68 / 100))
             else if s = ''NaN'' then Some NaN
             else None),
      from_sequence = (\<lambda>xs. Inl ValueError)\<rparr>"

definition example_buy :: open_order where
  "example_buy = [''orderId'' \<mapsto> JInt 11, ''side'' \<mapsto> JString ''BUY'',
                  ''price'' \<mapsto> JString ''0.6200'', ''origQty'' \<mapsto> JString ''10'',
                  ''status'' \<mapsto> JString ''NEW'']"

definition example_sell :: open_order where
  "example_sell = [''orderId'' \<mapsto> JInt 12, ''side'' \<mapsto> JString ''SELL'',
                   ''price'' \<mapsto> JString ''0.68'', ''origQty'' \<mapsto> JString ''10'',
                   ''status'' \<mapsto> JString ''NEW'']"

definition example_broken :: open_order where
  "example_broken = [''orderId'' \<mapsto> JInt 13, ''side'' \<mapsto> JString ''BUY'',
                     ''price'' \<mapsto> JString ''n/a'', ''origQty'' \<mapsto> JString ''10'',
                     ''status'' \<mapsto> JString ''NEW'']"

definition example_null :: open_order where
  "example_null = [''orderId'' \<mapsto> JInt 14, ''side'' \<mapsto> JString ''BUY'',
                   ''price'' \<mapsto> JNull, ''origQty'' \<mapsto> JString ''10'',
                   ''status'' \<mapsto> JString ''NEW'']"

definition example_levels :: "rat list" where
  "example_levels = [60 / 100, 62 / 100, 65 / 100, 68 / 100, 70 / 100]"

section \<open>Powers of ten and digit counts\<close>

lemma pow10_powi: "pow10 e = 10 powi e"
  by (simp add: pow10_def power_int_def field_simps)

lemma pow10_pos [simp]: "0 < pow10 e"
  by (simp add: pow10_powi)

lemma pow10_nonneg [simp]: "0 \<le> pow10 e"
  using pow10_pos [of e] by (simp only: less_imp_le)

lemma pow10_mono: "a \<le> b \<Longrightarrow> pow10 a \<le> pow10 b"
  by (simp add: pow10_powi power_int_increasing)

lemma pow10_less_cancel: "pow10 a < pow10 b \<Longrightarrow> a < b"
  using pow10_mono [of b a] by (cases "a < b") auto

lemma pow10_nat: "pow10 (int k) = 10 ^ k"
  by (simp add: pow10_def)

lemma pow10_add: "pow10 (a + b) = pow10 a * pow10 b"
  by (simp add: pow10_powi power_int_add)

lemma digits_pos: "0 < digits n"
  by (subst digits.simps) simp

lemma digits_upper: "n < 10 ^ digits n"
proof (induction n rule: digits.induct)
  case (1 n)
  show ?case
  proof (cases "n < 10")
    case True
    then show ?thesis by (subst digits.simps) simp
  next
    case False
    with 1 have "n div 10 < 10 ^ digits (n div 10)" by simp
    then have "n < 10 * 10 ^ digits (n div 10)" by linarith
    with False show ?thesis by (subst digits.simps) simp
  qed
qed

lemma digits_lower: "0 < n \<Longrightarrow> 10 ^ (digits n - 1) \<le> n"
proof (induction n rule: digits.induct)
  case (1 n)
  show ?case
  proof (cases "n < 10")
    case True
    with 1 show ?thesis by (subst digits.simps) simp
  next
    case False
    then have pos: "0 < n div 10" by simp
    with 1 False have "10 ^ (digits (n div 10) - 1) \<le> n div 10" by simp
    then have "10 * 10 ^ (digits (n div 10) - 1) \<le> n" by linarith
    moreover have "digits n - 1 = Suc (digits (n div 10) - 1)"
      using False digits_pos [of "n div 10"] by (subst digits.simps) simp
    ultimately show ?thesis by simp
  qed
qed

lemma adjusted_ge1:
  assumes "1 \<le> \<bar>x\<bar>"
  shows "pow10 (adjusted x) \<le> \<bar>x\<bar>" and "\<bar>x\<bar> < pow10 (adjusted x + 1)"
proof -
  define m where "m = \<lfloor>\<bar>x\<bar>\<rfloor>"
  have mpos: "0 < m" using assms by (simp add: m_def le_floor_iff)
  have adj: "adjusted x = int (digits m) - 1"
    using assms by (simp add: adjusted_def m_def)
  have e: "adjusted x = int (digits m - 1)"
    using digits_pos [of m] adj by simp
  have m_le: "(of_int m :: rat) \<le> \<bar>x\<bar>" by (simp add: m_def)
  have "(10::rat) ^ (digits m - 1) = of_int (10 ^ (digits m - 1))" by simp
  also have "\<dots> \<le> of_int m" using digits_lower [OF mpos] by (simp only: of_int_le_iff)
  finally have p: "(10::rat) ^ (digits m - 1) \<le> of_int m" .
  have "pow10 (adjusted x) = 10 ^ (digits m - 1)" by (simp only: e pow10_nat)
  with p m_le show "pow10 (adjusted x) \<le> \<bar>x\<bar>" by linarith
  have "\<bar>x\<bar> < of_int (m + 1)" unfolding m_def by linarith
  also have "\<dots> \<le> of_int (10 ^ digits m)"
    using digits_upper [of m] by (simp only: of_int_le_iff)
  finally have "\<bar>x\<bar> < 10 ^ digits m" by simp
  moreover have "adjusted x + 1 = int (digits m)" using adj by simp
  ultimately show "\<bar>x\<bar> < pow10 (adjusted x + 1)" by (simp only: pow10_nat)
qed

lemma adjusted_lt1:
  assumes "x \<noteq> 0" and "\<bar>x\<bar> < 1"
  shows "pow10 (adjusted x) \<le> \<bar>x\<bar>" and "\<bar>x\<bar> < pow10 (adjusted x + 1)"
proof -
  define a where "a = \<bar>x\<bar>"
  define c where "c = \<lceil>1 / a\<rceil>"
  define k where "k = digits (c - 1)"
  have apos: "0 < a" and a1: "a < 1" using assms by (simp_all add: a_def)
  have inv: "1 < 1 / a" using apos a1 by (simp add: field_simps)
  have c2: "2 \<le> c" unfolding c_def using inv by (simp add: le_ceiling_iff)
  then have mpos: "0 < c - 1" by simp
  have kpos: "0 < k" by (simp add: k_def digits_pos)
  have adj: "adjusted x = - int k"
    using assms by (simp add: adjusted_def k_def c_def a_def)
  have up: "1 / a \<le> of_int c" by (simp add: c_def)
  have lo: "of_int (c - 1) < 1 / a" unfolding c_def by linarith
  have "c \<le> 10 ^ k" using digits_upper [of "c - 1"] by (simp add: k_def)
  then have "(of_int c :: rat) \<le> of_int (10 ^ k)" by (simp only: of_int_le_iff)
  then have "(of_int c :: rat) \<le> 10 ^ k" by simp
  with up have "1 / a \<le> 10 ^ k" by linarith
  then have "1 / 10 ^ k \<le> a" using apos by (simp add: field_simps)
  moreover have "pow10 (- int k) = 1 / 10 ^ k" using kpos by (simp add: pow10_def)
  ultimately show "pow10 (adjusted x) \<le> \<bar>x\<bar>" by (simp add: adj a_def)
  have "(10::rat) ^ (k - 1) = of_int (10 ^ (k - 1))" by simp
  also have "\<dots> \<le> of_int (c - 1)"
    using digits_lower [OF mpos] by (simp only: of_int_le_iff k_def)
  finally have "(10::rat) ^ (k - 1) \<le> of_int (c - 1)" .
  with lo have "10 ^ (k - 1) < 1 / a" by linarith
  then have "a < 1 / 10 ^ (k - 1)" using apos by (simp add: field_simps)
  moreover have "pow10 (- int k + 1) = 1 / 10 ^ (k - 1)"
  proof (cases "k = 1")
    case True then show ?thesis by (simp add: pow10_def)
  next
    case False
    with kpos have "nat (int k - 1) = k - 1" "\<not> 0 \<le> - int k + 1" by auto
    then show ?thesis by (simp add: pow10_def)
  qed
  ultimately show "\<bar>x\<bar> < pow10 (adjusted x + 1)" by (simp add: adj a_def)
qed

lemma adjusted_lower: "x \<noteq> 0 \<Longrightarrow> pow10 (adjusted x) \<le> \<bar>x\<bar>"
  using adjusted_ge1(1) [of x] adjusted_lt1(1) [of x] by (cases "1 \<le> \<bar>x\<bar>") auto

lemma adjusted_upper: "x \<noteq> 0 \<Longrightarrow> \<bar>x\<bar> < pow10 (adjusted x + 1)"
  using adjusted_ge1(2) [of x] adjusted_lt1(2) [of x] by (cases "1 \<le> \<bar>x\<bar>") auto

lemma adjusted_ge: "pow10 k \<le> \<bar>x\<bar> \<Longrightarrow> k \<le> adjusted x"
proof -
  assume a: "pow10 k \<le> \<bar>x\<bar>"
  have "x \<noteq> 0"
  proof
    assume "x = 0"
    with a have "pow10 k \<le> 0" by simp
    with pow10_pos [of k] show False by linarith
  qed
  from adjusted_upper [OF this] a have "pow10 k < pow10 (adjusted x + 1)" by linarith
  then show ?thesis using pow10_less_cancel by fastforce
qed

section \<open>Rounding to an integer\<close>

lemma round_down_of_int [simp]: "round_down (of_int n) = n"
  by (simp add: round_down_def)

lemma round_half_even_of_int [simp]: "round_half_even (of_int n) = n"
  by (simp add: round_half_even_def)

lemma round_half_even_ge: "of_int n \<le> x \<Longrightarrow> n \<le> round_half_even x"
proof -
  assume "of_int n \<le> x"
  then have "n \<le> \<lfloor>x\<rfloor>" by (simp add: le_floor_iff)
  then show ?thesis by (auto simp: round_half_even_def Let_def)
qed

lemma round_half_even_le: "x \<le> of_int n \<Longrightarrow> round_half_even x \<le> n"
proof (cases "x = of_int n")
  case True
  then show ?thesis by simp
next
  case False
  assume "x \<le> of_int n"
  with False have "x < of_int n" by simp
  then have "\<lfloor>x\<rfloor> < n" by (simp add: floor_less_iff)
  then show ?thesis by (auto simp: round_half_even_def Let_def)
qed

lemma round_down_nonneg: "0 \<le> x \<Longrightarrow> 0 \<le> round_down x"
  by (simp add: round_down_def)

lemma round_down_le: "0 \<le> x \<Longrightarrow> of_int (round_down x) \<le> x"
  by (simp add: round_down_def)

lemma round_down_gt: "0 \<le> x \<Longrightarrow> x < of_int (round_down x) + 1"
  by (simp add: round_down_def) linarith

lemma round_down_abs_less:
  assumes "\<bar>x\<bar> < of_int n"
  shows "\<bar>round_down x\<bar> < n"
proof (cases "0 \<le> x")
  case True
  then have "0 \<le> \<lfloor>x\<rfloor>" by simp
  moreover have "\<lfloor>x\<rfloor> < n" using assms True by (simp add: floor_less_iff)
  ultimately show ?thesis using True by (simp add: round_down_def)
next
  case False
  then have "\<lceil>x\<rceil> \<le> 0" by (simp add: ceiling_le_iff)
  moreover have "of_int (- n) < x" using assms False by simp
  then have "- n < \<lceil>x\<rceil>" by (simp only: less_ceiling_iff)
  ultimately show ?thesis using False by (simp add: round_down_def)
qed

section \<open>Rounding to the context precision\<close>

lemma round_prec_0 [simp]: "round_prec 0 = 0"
  by (simp add: round_prec_def)

lemma round_prec_nonneg: "0 \<le> x \<Longrightarrow> 0 \<le> round_prec x"
proof (cases "x = 0")
  case True then show ?thesis by simp
next
  case False
  assume "0 \<le> x"
  then have "of_int 0 \<le> x / pow10 (adjusted x - (int prec - 1))"
    by (simp add: zero_le_divide_iff)
  then have "0 \<le> round_half_even (x / pow10 (adjusted x - (int prec - 1)))"
    by (rule round_half_even_ge)
  then show ?thesis using False by (simp add: round_prec_def Let_def)
qed

lemma round_prec_abs_ge:
  assumes "x \<noteq> 0"
  shows "pow10 (adjusted x) \<le> \<bar>round_prec x\<bar>"
proof -
  define e where "e = adjusted x - (int prec - 1)"
  define y where "y = x / pow10 e"
  have "int (prec - 1) + e = adjusted x" by (simp add: e_def prec_def)
  then have "pow10 (adjusted x) = pow10 (int (prec - 1)) * pow10 e"
    using pow10_add [of "int (prec - 1)" e] by simp
  then have split: "pow10 (adjusted x) = 10 ^ (prec - 1) * pow10 e"
    by (simp only: pow10_nat)
  have rp: "round_prec x = of_int (round_half_even y) * pow10 e"
    using assms by (simp add: round_prec_def Let_def e_def y_def)
  have "10 ^ (prec - 1) * pow10 e \<le> \<bar>x\<bar>" using adjusted_lower [OF assms] split by simp
  then have ylow: "10 ^ (prec - 1) \<le> \<bar>y\<bar>"
    by (simp add: y_def field_simps)
  have "(10::int) ^ (prec - 1) \<le> \<bar>round_half_even y\<bar>"
  proof (cases "0 \<le> y")
    case True
    with ylow have "of_int (10 ^ (prec - 1)) \<le> y" by simp
    from round_half_even_ge [OF this] show ?thesis by simp
  next
    case False
    with ylow have "y \<le> of_int (- (10 ^ (prec - 1)))" by simp
    from round_half_even_le [OF this] show ?thesis by simp
  qed
  then have "(of_int (10 ^ (prec - 1)) :: rat) \<le> of_int \<bar>round_half_even y\<bar>"
    by (simp only: of_int_le_iff)
  then have "(10::rat) ^ (prec - 1) \<le> \<bar>of_int (round_half_even y)\<bar>" by simp
  then have "10 ^ (prec - 1) * pow10 e \<le> \<bar>of_int (round_half_even y)\<bar> * pow10 e"
    by (simp add: mult_right_mono)
  then show ?thesis by (simp add: split rp abs_mult)
qed

lemma round_prec_keeps_quantum:
  assumes "pow10 k \<le> \<bar>x\<bar>"
  shows "pow10 k \<le> \<bar>round_prec x\<bar>"
proof -
  have nz: "x \<noteq> 0"
  proof
    assume "x = 0"
    with assms have "pow10 k \<le> 0" by simp
    with pow10_pos [of k] show False by linarith
  qed
  have "pow10 k \<le> pow10 (adjusted x)" using adjusted_ge [OF assms] by (rule pow10_mono)
  with round_prec_abs_ge [OF nz] show ?thesis by linarith
qed

lemma round_half_even_error: "\<bar>of_int (round_half_even y) - y\<bar> \<le> 1 / 2"
proof -
  define f where "f = \<lfloor>y\<rfloor>"
  have b: "of_int f \<le> y" "y < of_int f + 1" unfolding f_def by linarith+
  have "round_half_even y =
      (if y - of_int f < 1 / 2 then f
       else if 1 / 2 < y - of_int f then f + 1
       else if even f then f else f + 1)"
    by (simp add: round_half_even_def Let_def f_def)
  with b show ?thesis by (auto simp: abs_if)
qed

lemma round_prec_error: "\<bar>round_prec x - x\<bar> \<le> pow10 (adjusted x - (int prec - 1)) / 2"
proof (cases "x = 0")
  case True
  then show ?thesis by simp
next
  case False
  define p where "p = pow10 (adjusted x - (int prec - 1))"
  define r where "r = round_half_even (x / p)"
  have pp: "0 < p" by (simp add: p_def)
  have "round_prec x = of_int r * p"
    using False by (simp add: round_prec_def Let_def p_def r_def)
  moreover have "of_int r * p - x = (of_int r - x / p) * p"
    using pp by (simp add: field_simps)
  ultimately have "\<bar>round_prec x - x\<bar> = \<bar>of_int r - x / p\<bar> * p"
    using pp by (simp add: abs_mult)
  also have "\<dots> \<le> 1 / 2 * p"
    using round_half_even_error [of "x / p"] pp unfolding r_def by (intro mult_right_mono) simp_all
  finally show ?thesis by (simp add: p_def)
qed

section \<open>Quantizing\<close>

lemma quantize_Inr:
  "quantize r q x = Inr y \<Longrightarrow>
     y = of_int (round_to_int r (x / q)) * q \<and> \<bar>round_to_int r (x / q)\<bar> < 10 ^ prec"
  by (auto simp: quantize_def Let_def split: if_splits)

lemma quantize_Inl: "quantize r q x = Inl e \<Longrightarrow> e = InvalidOperation"
  by (auto simp: quantize_def Let_def split: if_splits)

lemma round_to_int_of_int [simp]: "round_to_int r (of_int n) = n"
  by (cases r) simp_all

lemma on_grid_iff: "on_grid x \<longleftrightarrow> (\<exists>c::int. x = of_int c * PRICE_PRECISION \<and> \<bar>c\<bar> < 10 ^ prec)"
proof
  assume g: "on_grid x"
  define c where "c = \<lfloor>x / PRICE_PRECISION\<rfloor>"
  from g have eq: "of_int c = x / PRICE_PRECISION" and b: "\<bar>x / PRICE_PRECISION\<bar> < 10 ^ prec"
    by (simp_all add: on_grid_def Let_def c_def)
  from eq have "x = of_int c * PRICE_PRECISION" by (simp add: PRICE_PRECISION_def)
  moreover from b eq have "\<bar>(of_int c :: rat)\<bar> < of_int (10 ^ prec)" by simp
  then have "\<bar>c\<bar> < 10 ^ prec" by (simp only: of_int_abs [symmetric] of_int_less_iff)
  ultimately show "\<exists>c::int. x = of_int c * PRICE_PRECISION \<and> \<bar>c\<bar> < 10 ^ prec" by blast
next
  assume "\<exists>c::int. x = of_int c * PRICE_PRECISION \<and> \<bar>c\<bar> < 10 ^ prec"
  then obtain c :: int where x: "x = of_int c * PRICE_PRECISION" and b: "\<bar>c\<bar> < 10 ^ prec"
    by blast
  have q: "x / PRICE_PRECISION = of_int c" by (simp add: x PRICE_PRECISION_def)
  from b have "(of_int \<bar>c\<bar> :: rat) < of_int (10 ^ prec)" by (simp only: of_int_less_iff)
  then have "\<bar>(of_int c :: rat)\<bar> < 10 ^ prec" by simp
  then show "on_grid x" by (simp add: on_grid_def Let_def q)
qed

lemma quantize_on_grid: "quantize r PRICE_PRECISION x = Inr y \<Longrightarrow> on_grid y"
  using quantize_Inr [of r PRICE_PRECISION x y] by (auto simp: on_grid_iff)

lemma quantize_fixes_grid: "on_grid y \<Longrightarrow> quantize r PRICE_PRECISION y = Inr y"
proof -
  assume "on_grid y"
  then obtain c :: int where y: "y = of_int c * PRICE_PRECISION" and b: "\<bar>c\<bar> < 10 ^ prec"
    by (auto simp: on_grid_iff)
  have "y / PRICE_PRECISION = of_int c" by (simp add: y PRICE_PRECISION_def)
  with b show ?thesis by (simp add: quantize_def Let_def y)
qed

lemma quantize_down_bounds:
  assumes "0 \<le> x" and "quantize ROUND_DOWN PRICE_PRECISION x = Inr y"
  shows "y \<le> x" and "x < y + PRICE_PRECISION" and "\<exists>k::nat. y = of_nat k * PRICE_PRECISION"
proof -
  define c where "c = round_down (x / PRICE_PRECISION)"
  have y: "y = of_int c * PRICE_PRECISION"
    using quantize_Inr [OF assms(2)] by (simp add: c_def)
  have nn: "0 \<le> x / PRICE_PRECISION" using assms(1) by (simp add: PRICE_PRECISION_def)
  have "of_int c \<le> x / PRICE_PRECISION" unfolding c_def by (rule round_down_le [OF nn])
  then show "y \<le> x" by (simp add: y PRICE_PRECISION_def field_simps)
  have "x / PRICE_PRECISION < of_int c + 1" unfolding c_def by (rule round_down_gt [OF nn])
  then show "x < y + PRICE_PRECISION" by (simp add: y PRICE_PRECISION_def field_simps)
  have "0 \<le> c" unfolding c_def by (rule round_down_nonneg [OF nn])
  then have "y = of_nat (nat c) * PRICE_PRECISION" by (simp add: y)
  then show "\<exists>k::nat. y = of_nat k * PRICE_PRECISION" ..
qed

lemma quantize_down_succeeds:
  assumes "\<bar>x\<bar> < 10 ^ 24"
  shows "\<exists>y. quantize ROUND_DOWN PRICE_PRECISION x = Inr y"
proof -
  have "\<bar>x / PRICE_PRECISION\<bar> < of_int (10 ^ prec)"
    using assms by (simp add: PRICE_PRECISION_def prec_def abs_mult)
  then have "\<bar>round_down (x / PRICE_PRECISION)\<bar> < 10 ^ prec" by (rule round_down_abs_less)
  then show ?thesis by (simp add: quantize_def Let_def)
qed

section \<open>Comprehensions that may raise\<close>

lemma map_result_Inr:
  "map_result f xs = Inr ys \<Longrightarrow> list_all2 (\<lambda>x y. f x = Inr y) xs ys"
  by (induction xs arbitrary: ys) (auto split: sum.splits)

lemma map_result_total:
  "(\<And>x. x \<in> set xs \<Longrightarrow> \<exists>y. f x = Inr y) \<Longrightarrow> \<exists>ys. map_result f xs = Inr ys"
  by (induction xs) (fastforce split: sum.splits)+

lemma map_result_Inl: "map_result f xs = Inl e \<Longrightarrow> \<exists>x\<in>set xs. f x = Inl e"
  by (induction xs) (auto split: sum.splits)

section \<open>Deduplication\<close>

lemma grid_gap:
  assumes "on_grid a" and "on_grid b" and "a \<noteq> b"
  shows "PRICE_PRECISION \<le> \<bar>a - b\<bar>"
proof -
  from assms obtain c d :: int
    where a: "a = of_int c * PRICE_PRECISION" and b: "b = of_int d * PRICE_PRECISION"
    by (auto simp: on_grid_iff)
  from assms(3) have "c \<noteq> d" by (auto simp: a b)
  then have "1 \<le> \<bar>c - d\<bar>" by simp
  then have "(of_int 1 :: rat) \<le> of_int \<bar>c - d\<bar>" by (simp only: of_int_le_iff)
  then have "(1::rat) \<le> \<bar>of_int c - of_int d\<bar>" by simp
  moreover have "\<bar>a - b\<bar> = \<bar>of_int c - of_int d\<bar> * PRICE_PRECISION"
    by (simp add: a b PRICE_PRECISION_def abs_if field_simps)
  ultimately show ?thesis by (simp add: PRICE_PRECISION_def)
qed

lemma PRICE_PRECISION_pow10: "PRICE_PRECISION = pow10 (- 4)"
  by (simp add: PRICE_PRECISION_def pow10_def)

lemma kept_iff_differs:
  assumes "on_grid a" and "on_grid b"
  shows "tolerance < dec_abs (dec_sub a b) \<longleftrightarrow> a \<noteq> b"
proof (cases "a = b")
  case True
  then show ?thesis by (simp add: dec_abs_def dec_sub_def tolerance_def PRICE_PRECISION_def)
next
  case False
  from grid_gap [OF assms False] have "pow10 (- 4) \<le> \<bar>a - b\<bar>"
    by (simp only: PRICE_PRECISION_pow10)
  then have "pow10 (- 4) \<le> \<bar>round_prec (a - b)\<bar>" by (rule round_prec_keeps_quantum)
  then have "pow10 (- 4) \<le> \<bar>\<bar>round_prec (a - b)\<bar>\<bar>" by simp
  then have "pow10 (- 4) \<le> \<bar>round_prec \<bar>round_prec (a - b)\<bar>\<bar>"
    by (rule round_prec_keeps_quantum)
  moreover have "0 \<le> round_prec \<bar>round_prec (a - b)\<bar>" by (rule round_prec_nonneg) simp
  ultimately have "PRICE_PRECISION \<le> dec_abs (dec_sub a b)"
    by (simp add: dec_abs_def dec_sub_def PRICE_PRECISION_pow10)
  then show ?thesis using False by (simp add: tolerance_def PRICE_PRECISION_def)
qed

lemma close_iff_equal:
  assumes "on_grid a" and "on_grid b"
  shows "\<bar>a - b\<bar> \<le> PRICE_PRECISION / 2 \<longleftrightarrow> a = b"
  using grid_gap [OF assms] by (cases "a = b") (auto simp: PRICE_PRECISION_def)

lemma unique_from_drop_close:
  "\<forall>x\<in>set xs. on_grid x \<Longrightarrow> on_grid p \<Longrightarrow> unique_from p xs = drop_close p xs"
proof (induction xs arbitrary: p)
  case Nil
  then show ?case by simp
next
  case (Cons x xs)
  then have gx: "on_grid x" and gp: "on_grid p" and rest: "\<forall>y\<in>set xs. on_grid y" by simp_all
  show ?case
  proof (cases "x = p")
    case True
    with Cons.IH [OF rest gp] show ?thesis
      using kept_iff_differs [OF gx gp] close_iff_equal [OF gx gp] by simp
  next
    case False
    with Cons.IH [OF rest gx] show ?thesis
      using kept_iff_differs [OF gx gp] close_iff_equal [OF gx gp] by simp
  qed
qed

lemma unique_from_sorted:
  "\<forall>x\<in>set xs. on_grid x \<Longrightarrow> on_grid p \<Longrightarrow> sorted_wrt (\<ge>) (p # xs) \<Longrightarrow>
     sorted_wrt (>) (p # unique_from p xs) \<and> set (p # unique_from p xs) = set (p # xs)"
proof (induction xs arbitrary: p)
  case Nil
  then show ?case by simp
next
  case (Cons x xs)
  then have gx: "on_grid x" and gp: "on_grid p" and rest: "\<forall>y\<in>set xs. on_grid y"
    and sx: "sorted_wrt (\<ge>) (x # xs)" and px: "x \<le> p" by simp_all
  from Cons.IH [OF rest gx sx]
  have ih: "sorted_wrt (>) (x # unique_from x xs)" "set (x # unique_from x xs) = set (x # xs)"
    by simp_all
  show ?case
  proof (cases "x = p")
    case True
    with ih show ?thesis using kept_iff_differs [OF gx gp] by simp
  next
    case False
    with px have lt: "x < p" by simp
    have "\<forall>y\<in>set (x # unique_from x xs). y < p"
      using ih(2) sx lt by auto
    with ih False show ?thesis using kept_iff_differs [OF gx gp] by auto
  qed
qed

lemma sort_desc_sorted: "sorted_wrt (\<ge>) (sort_desc xs)"
  by (simp add: sort_desc_def sorted_wrt_rev)

lemma sort_desc_set [simp]: "set (sort_desc xs) = set xs"
  by (simp add: sort_desc_def)

lemma sort_desc_Nil: "sort_desc xs = [] \<longleftrightarrow> xs = []"
  by (metis length_0_conv length_rev length_sort sort_desc_def)

lemma unique_levels_sorted:
  assumes "\<forall>x\<in>set xs. on_grid x"
  shows "sorted_wrt (>) (unique_levels (sort_desc xs))"
    and "set (unique_levels (sort_desc xs)) = set xs"
proof -
  show "sorted_wrt (>) (unique_levels (sort_desc xs))"
  proof (cases "sort_desc xs")
    case Nil
    then have "xs = []" by (simp only: sort_desc_Nil)
    then show ?thesis by (simp add: unique_levels_def sort_desc_def)
  next
    case (Cons p ts)
    have "set (p # ts) = set xs" using Cons sort_desc_set [of xs] by simp
    with assms have g: "\<forall>x\<in>set ts. on_grid x" "on_grid p" by auto
    have "sorted_wrt (\<ge>) (p # ts)" using sort_desc_sorted [of xs] Cons by simp
    from unique_from_sorted [OF g this] Cons show ?thesis by (simp add: unique_levels_def)
  qed
  show "set (unique_levels (sort_desc xs)) = set xs"
  proof (cases "sort_desc xs")
    case Nil
    then have "xs = []" by (simp only: sort_desc_Nil)
    then show ?thesis by (simp add: unique_levels_def sort_desc_def)
  next
    case (Cons p ts)
    have s: "set (p # ts) = set xs" using Cons sort_desc_set [of xs] by simp
    with assms have g: "\<forall>x\<in>set ts. on_grid x" "on_grid p" by auto
    have "sorted_wrt (\<ge>) (p # ts)" using sort_desc_sorted [of xs] Cons by simp
    from unique_from_sorted [OF g this] Cons s show ?thesis by (simp add: unique_levels_def)
  qed
qed

lemma unique_levels_spec:
  assumes "\<forall>x\<in>set xs. on_grid x"
  shows "unique_levels xs = deduplicate_spec xs"
  using assms by (cases xs) (simp_all add: unique_levels_def deduplicate_spec_def unique_from_drop_close)

lemma strictly_descending_gaps:
  assumes "sorted_wrt (>) ys" and "\<forall>y\<in>set ys. on_grid y"
  shows "successively (\<lambda>a b. PRICE_PRECISION \<le> a - b) ys"
proof -
  have "sorted_wrt (\<lambda>a b. PRICE_PRECISION \<le> a - b) ys"
  proof (rule sorted_wrt_mono_rel [OF _ assms(1)])
    fix a b assume "a \<in> set ys" "b \<in> set ys" "b < a"
    with assms(2) grid_gap [of a b] show "PRICE_PRECISION \<le> a - b" by auto
  qed
  then show ?thesis by (rule successively_if_sorted_wrt)
qed

section \<open>The raw levels\<close>

lemma map_result_results:
  "map_result f xs = Inr ys \<Longrightarrow> y \<in> set ys \<Longrightarrow> \<exists>x\<in>set xs. f x = Inr y"
  by (induction xs arbitrary: ys) (auto split: sum.splits)

lemma map_result_length: "map_result f xs = Inr ys \<Longrightarrow> length ys = length xs"
  by (induction xs arbitrary: ys) (auto split: sum.splits)

lemma dec_pow_nonneg:
  assumes "pw_nonneg pw" and "0 \<le> x" and "dec_pow pw x y = Inr r"
  shows "0 \<le> r"
proof -
  consider "y = 0" | "y = 1" | "y \<noteq> 0" "y \<noteq> 1" by blast
  then show ?thesis
  proof cases
    case 1
    with assms(3) show ?thesis by (auto simp: dec_pow_def split: if_splits)
  next
    case 2
    with assms(3) have "r = round_prec x" by (simp add: dec_pow_def)
    with assms(2) show ?thesis by (simp add: round_prec_nonneg)
  next
    case 3
    with assms(3) have "pw x y = Inr r" by (simp add: dec_pow_def)
    with assms(1,2) show ?thesis unfolding pw_nonneg_def by blast
  qed
qed

lemma grid_ratio_nonneg:
  assumes "pw_nonneg pw" and "0 < lower_price" and "0 \<le> upper_price"
    and "grid_ratio pw upper_price lower_price num_grids = Inr ratio"
  shows "0 \<le> ratio"
proof -
  from assms(4) obtain q y where q: "dec_div upper_price lower_price = Inr q"
    and p: "dec_pow pw q y = Inr ratio"
    by (auto simp: grid_ratio_def split: sum.splits)
  from q assms(2) have "q = round_prec (upper_price / lower_price)"
    by (auto simp: dec_div_def split: if_splits)
  with assms(2,3) have "0 \<le> q" by (simp add: round_prec_nonneg)
  with dec_pow_nonneg [OF assms(1) _ p] show ?thesis by simp
qed

lemma raw_levels_nonneg:
  assumes "pw_nonneg pw" and "0 < lower_price" and "0 \<le> upper_price"
    and "raw_levels pw upper_price lower_price num_grids = Inr raw" and "x \<in> set raw"
  shows "0 \<le> x"
proof -
  from assms(4) obtain ratio where r: "grid_ratio pw upper_price lower_price num_grids = Inr ratio"
    and m: "map_result (raw_level pw lower_price ratio) [0..<nat (num_grids + 1)] = Inr raw"
    by (auto simp: raw_levels_def split: sum.splits)
  have rn: "0 \<le> ratio" by (rule grid_ratio_nonneg [OF assms(1-3) r])
  from map_result_results [OF m assms(5)] obtain i where "raw_level pw lower_price ratio i = Inr x"
    by blast
  then obtain p where p: "dec_pow pw ratio (of_nat i) = Inr p" and x: "x = dec_mul lower_price p"
    by (auto simp: raw_level_def split: sum.splits)
  have "0 \<le> p" by (rule dec_pow_nonneg [OF assms(1) rn p])
  with assms(2) show ?thesis by (simp add: x dec_mul_def round_prec_nonneg)
qed

lemma raw_levels_length:
  "raw_levels pw upper_price lower_price num_grids = Inr raw \<Longrightarrow> length raw = nat (num_grids + 1)"
  by (auto simp: raw_levels_def split: sum.splits dest: map_result_length)

section \<open>What the grid calculation returns\<close>

lemma unique_levels_Nil: "unique_levels xs = [] \<longleftrightarrow> xs = []"
  by (cases xs) (simp_all add: unique_levels_def)

lemma calculate_grid_levels_valid:
  assumes "valid_config upper_price lower_price num_grids"
    and "raw_levels pw upper_price lower_price num_grids = Inr raw"
  shows "calculate_grid_levels pw upper_price lower_price num_grids =
     (case map_result (quantize ROUND_DOWN PRICE_PRECISION) raw of
        Inl e \<Rightarrow> Inl e
      | Inr formatted_levels \<Rightarrow> Inr (unique_levels (sort_desc formatted_levels)))"
  using assms by (simp add: calculate_grid_levels_def valid_config_def)

lemma formatted_nonempty:
  assumes "valid_config upper_price lower_price num_grids"
    and "raw_levels pw upper_price lower_price num_grids = Inr raw"
    and "map_result (quantize ROUND_DOWN PRICE_PRECISION) raw = Inr formatted_levels"
  shows "unique_levels (sort_desc formatted_levels) \<noteq> []"
proof -
  have "length raw = nat (num_grids + 1)" by (rule raw_levels_length [OF assms(2)])
  moreover have "length formatted_levels = length raw" by (rule map_result_length [OF assms(3)])
  ultimately have "formatted_levels \<noteq> []" using assms(1) by (auto simp: valid_config_def)
  then show ?thesis by (simp add: unique_levels_Nil sort_desc_Nil)
qed

lemma formatted_on_grid:
  "map_result (quantize ROUND_DOWN PRICE_PRECISION) raw = Inr formatted_levels \<Longrightarrow>
     \<forall>y\<in>set formatted_levels. on_grid y"
  by (auto dest!: map_result_results dest: quantize_on_grid)

text \<open>
  C4 (amended). The function returns the empty list exactly when the parameters are
  invalid or the decimal computation of the raw levels raises \<open>InvalidOperation\<close> or
  \<open>OverflowError\<close>; for valid parameters whose raw levels are computed and stay below
  \<open>10 ^ 24\<close> in magnitude it returns a list that is not empty.
\<close>

theorem calculate_grid_levels_failure:
  "(calculate_grid_levels pw upper_price lower_price num_grids = Inr [] \<longleftrightarrow>
      upper_price \<le> lower_price \<or> num_grids < 1 \<or> lower_price \<le> 0 \<or>
      raw_levels pw upper_price lower_price num_grids = Inl InvalidOperation \<or>
      raw_levels pw upper_price lower_price num_grids = Inl OverflowError) \<and>
   (valid_config upper_price lower_price num_grids \<and>
    raw_levels pw upper_price lower_price num_grids = Inr raw \<and>
    (\<forall>x\<in>set raw. \<bar>x\<bar> < 10 ^ 24) \<longrightarrow>
      (\<exists>ys. calculate_grid_levels pw upper_price lower_price num_grids = Inr ys \<and> ys \<noteq> []))"
proof (intro conjI impI)
  show "calculate_grid_levels pw upper_price lower_price num_grids = Inr [] \<longleftrightarrow>
      upper_price \<le> lower_price \<or> num_grids < 1 \<or> lower_price \<le> 0 \<or>
      raw_levels pw upper_price lower_price num_grids = Inl InvalidOperation \<or>
      raw_levels pw upper_price lower_price num_grids = Inl OverflowError"
  proof (cases "valid_config upper_price lower_price num_grids")
    case False
    then show ?thesis by (auto simp: calculate_grid_levels_def valid_config_def)
  next
    case True
    then have v: "\<not> (upper_price \<le> lower_price \<or> num_grids < 1 \<or> lower_price \<le> 0)"
      by (auto simp: valid_config_def)
    show ?thesis
    proof (cases "raw_levels pw upper_price lower_price num_grids")
      case (Inl e)
      with v show ?thesis by (auto simp: calculate_grid_levels_def)
    next
      case (Inr raw')
      have "calculate_grid_levels pw upper_price lower_price num_grids \<noteq> Inr []"
        using formatted_nonempty [OF True Inr] calculate_grid_levels_valid [OF True Inr]
        by (auto split: sum.splits)
      with v Inr show ?thesis by simp
    qed
  qed
next
  assume a: "valid_config upper_price lower_price num_grids \<and>
    raw_levels pw upper_price lower_price num_grids = Inr raw \<and> (\<forall>x\<in>set raw. \<bar>x\<bar> < 10 ^ 24)"
  then have v: "valid_config upper_price lower_price num_grids"
    and r: "raw_levels pw upper_price lower_price num_grids = Inr raw"
    and b: "\<And>x. x \<in> set raw \<Longrightarrow> \<bar>x\<bar> < 10 ^ 24" by simp_all
  from map_result_total [of raw "quantize ROUND_DOWN PRICE_PRECISION"] b
  obtain fs where fs: "map_result (quantize ROUND_DOWN PRICE_PRECISION) raw = Inr fs"
    using quantize_down_succeeds by blast
  show "\<exists>ys. calculate_grid_levels pw upper_price lower_price num_grids = Inr ys \<and> ys \<noteq> []"
    using formatted_nonempty [OF v r fs] calculate_grid_levels_valid [OF v r] fs by simp
qed

text \<open>
  C6. For a valid configuration, what the function returns is the deduplication of the
  specification (drop a level within half a quantum of the previous kept level) applied
  to the descending-sorted quantized levels, and consecutive returned levels differ by
  more than half a quantum.
\<close>

theorem deduplication_keeps_distinct_ticks:
  assumes "valid_config upper_price lower_price num_grids"
    and "raw_levels pw upper_price lower_price num_grids = Inr raw"
    and "calculate_grid_levels pw upper_price lower_price num_grids = Inr ys"
  shows "\<exists>formatted_levels.
           map_result (quantize ROUND_DOWN PRICE_PRECISION) raw = Inr formatted_levels \<and>
           ys = deduplicate_spec (sort_desc formatted_levels) \<and>
           successively (\<lambda>a b. PRICE_PRECISION / 2 < \<bar>a - b\<bar>) ys"
proof -
  from assms(3) calculate_grid_levels_valid [OF assms(1,2)]
  obtain fs where fs: "map_result (quantize ROUND_DOWN PRICE_PRECISION) raw = Inr fs"
    and ys: "ys = unique_levels (sort_desc fs)"
    by (auto split: sum.splits)
  have g: "\<forall>y\<in>set fs. on_grid y" by (rule formatted_on_grid [OF fs])
  then have g': "\<forall>y\<in>set (sort_desc fs). on_grid y" by simp
  have spec: "ys = deduplicate_spec (sort_desc fs)"
    unfolding ys by (rule unique_levels_spec [OF g'])
  have "sorted_wrt (>) ys" unfolding ys by (rule unique_levels_sorted(1) [OF g])
  moreover have "\<forall>y\<in>set ys. on_grid y" unfolding ys using unique_levels_sorted(2) [OF g] g by simp
  ultimately have "successively (\<lambda>a b. PRICE_PRECISION \<le> a - b) ys"
    by (rule strictly_descending_gaps)
  then have "successively (\<lambda>a b. PRICE_PRECISION / 2 < \<bar>a - b\<bar>) ys"
    by (rule successively_mono) (auto simp: PRICE_PRECISION_def)
  with fs spec show ?thesis by blast
qed

text \<open>
  C9 (amended). For a valid configuration whose raw levels are computed and are all below
  \<open>10 ^ 24\<close> (given a power that returns no negative number for a base that is not
  negative), the function returns a list that is not empty; every returned level is a
  natural multiple of the quantum, not above a raw level and less than a quantum below
  it; the list is strictly descending and consecutive levels differ by at least a quantum.
\<close>

theorem calculate_grid_levels_quantized:
  assumes "valid_config upper_price lower_price num_grids"
    and "pw_nonneg pw"
    and "raw_levels pw upper_price lower_price num_grids = Inr raw"
    and "\<forall>x\<in>set raw. x < 10 ^ 24"
  shows "\<exists>ys. calculate_grid_levels pw upper_price lower_price num_grids = Inr ys \<and>
           ys \<noteq> [] \<and>
           (\<forall>y\<in>set ys. (\<exists>k::nat. y = of_nat k * PRICE_PRECISION) \<and>
                        (\<exists>x\<in>set raw. y \<le> x \<and> x < y + PRICE_PRECISION)) \<and>
           sorted_wrt (>) ys \<and>
           successively (\<lambda>a b. PRICE_PRECISION \<le> a - b) ys"
proof -
  from assms(1) have lp: "0 < lower_price" and up: "0 \<le> upper_price"
    by (auto simp: valid_config_def)
  have nn: "\<And>x. x \<in> set raw \<Longrightarrow> 0 \<le> x"
    by (rule raw_levels_nonneg [OF assms(2) lp up assms(3)])
  with assms(4) have b: "\<And>x. x \<in> set raw \<Longrightarrow> \<bar>x\<bar> < 10 ^ 24" by auto
  from map_result_total [of raw "quantize ROUND_DOWN PRICE_PRECISION"] b
  obtain fs where fs: "map_result (quantize ROUND_DOWN PRICE_PRECISION) raw = Inr fs"
    using quantize_down_succeeds by blast
  define ys where "ys = unique_levels (sort_desc fs)"
  have res: "calculate_grid_levels pw upper_price lower_price num_grids = Inr ys"
    using calculate_grid_levels_valid [OF assms(1,3)] fs by (simp add: ys_def)
  have ne: "ys \<noteq> []" unfolding ys_def by (rule formatted_nonempty [OF assms(1,3) fs])
  have g: "\<forall>y\<in>set fs. on_grid y" by (rule formatted_on_grid [OF fs])
  have set_ys: "set ys = set fs" unfolding ys_def by (rule unique_levels_sorted(2) [OF g])
  have sorted: "sorted_wrt (>) ys" unfolding ys_def by (rule unique_levels_sorted(1) [OF g])
  have gaps: "successively (\<lambda>a b. PRICE_PRECISION \<le> a - b) ys"
    using sorted g set_ys by (intro strictly_descending_gaps) simp_all
  have each: "\<forall>y\<in>set ys. (\<exists>k::nat. y = of_nat k * PRICE_PRECISION) \<and>
                        (\<exists>x\<in>set raw. y \<le> x \<and> x < y + PRICE_PRECISION)"
  proof
    fix y assume "y \<in> set ys"
    then have "y \<in> set fs" by (simp add: set_ys)
    from map_result_results [OF fs this] obtain x where x: "x \<in> set raw"
      and q: "quantize ROUND_DOWN PRICE_PRECISION x = Inr y" by blast
    from quantize_down_bounds [OF nn [OF x] q] x
    show "(\<exists>k::nat. y = of_nat k * PRICE_PRECISION) \<and>
          (\<exists>x\<in>set raw. y \<le> x \<and> x < y + PRICE_PRECISION)" by blast
  qed
  from res ne each sorted gaps show ?thesis by blast
qed

lemma map_result_nth:
  "map_result f xs = Inr ys \<Longrightarrow> i < length xs \<Longrightarrow> f (xs ! i) = Inr (ys ! i)"
  using map_result_Inr [of f xs ys] by (simp add: list_all2_conv_all_nth)

section \<open>The raw levels as a geometric sequence\<close>

lemma round_prec_relative: "\<bar>round_prec x - x\<bar> \<le> \<bar>x\<bar> / (2 * 10 ^ 27)"
proof (cases "x = 0")
  case True
  then show ?thesis by simp
next
  case False
  have "pow10 (adjusted x - (int prec - 1)) = pow10 (adjusted x) * pow10 (- 27)"
    using pow10_add [of "adjusted x" "- 27"] by (simp add: prec_def)
  also have "pow10 (- 27) = 1 / 10 ^ 27" by (simp add: pow10_def)
  finally have "pow10 (adjusted x - (int prec - 1)) = pow10 (adjusted x) / 10 ^ 27" by simp
  moreover have "pow10 (adjusted x) / 10 ^ 27 \<le> \<bar>x\<bar> / 10 ^ 27"
    using adjusted_lower [OF False] by (simp add: divide_right_mono)
  ultimately have "pow10 (adjusted x - (int prec - 1)) / 2 \<le> \<bar>x\<bar> / 10 ^ 27 / 2" by simp
  with round_prec_error [of x] show ?thesis by simp
qed

lemma round_prec_pos: "0 < x \<Longrightarrow> 0 < round_prec x"
proof -
  assume x: "0 < x"
  then have "x \<noteq> 0" by simp
  then have "0 < \<bar>round_prec x\<bar>"
    by (rule less_le_trans [OF pow10_pos round_prec_abs_ge])
  then have "round_prec x \<noteq> 0" by simp
  moreover have "0 \<le> round_prec x" using x by (simp add: round_prec_nonneg)
  ultimately show ?thesis by simp
qed

lemma real_of_rat_abs_le:
  "\<bar>a - b\<bar> \<le> c \<longleftrightarrow> \<bar>real_of_rat a - real_of_rat b\<bar> \<le> real_of_rat c"
proof -
  have "\<bar>real_of_rat a - real_of_rat b\<bar> = real_of_rat \<bar>a - b\<bar>"
    by (simp add: of_rat_diff abs_if of_rat_less)
  then show ?thesis by (simp add: of_rat_less_eq)
qed

lemma powr_of_nat_rat:
  "0 < x \<Longrightarrow> real_of_rat x powr real_of_rat (of_nat i) = real_of_rat (x ^ i)"
  by (simp add: powr_realpow of_rat_power)

lemma dec_pow_accurate:
  assumes "pw_accurate pw" and "0 < x" and "dec_pow pw x y = Inr r"
  shows "\<bar>real_of_rat r - real_of_rat x powr real_of_rat y\<bar> \<le>
           real_of_rat x powr real_of_rat y / 10 ^ 27"
proof -
  consider "y = 0" | "y = 1" | "y \<noteq> 0" "y \<noteq> 1" by blast
  then show ?thesis
  proof cases
    case 1
    with assms(2,3) show ?thesis by (simp add: dec_pow_def)
  next
    case 2
    with assms(3) have r: "r = round_prec x" by (simp add: dec_pow_def)
    have "\<bar>round_prec x - x\<bar> \<le> x / 10 ^ 27"
    proof -
      have "x / (2 * 10 ^ 27) \<le> x / 10 ^ 27" using assms(2) by (simp add: field_simps)
      with round_prec_relative [of x] assms(2) show ?thesis by simp
    qed
    then have "\<bar>real_of_rat (round_prec x) - real_of_rat x\<bar> \<le> real_of_rat (x / 10 ^ 27)"
      by (simp only: real_of_rat_abs_le)
    with assms(2) show ?thesis by (simp add: r 2 of_rat_divide of_rat_power)
  next
    case 3
    with assms(3) have "pw x y = Inr r" by (simp add: dec_pow_def)
    with assms(1,2) show ?thesis unfolding pw_accurate_def by blast
  qed
qed

lemma dec_pow_natural_accurate:
  assumes "pw_accurate pw" and "0 < x" and "dec_pow pw x (of_nat i) = Inr p"
  shows "\<bar>p - x ^ i\<bar> \<le> x ^ i / 10 ^ 27"
proof -
  from dec_pow_accurate [OF assms]
  have "\<bar>real_of_rat p - real_of_rat (x ^ i)\<bar> \<le> real_of_rat (x ^ i) / 10 ^ 27"
    by (simp only: powr_of_nat_rat [OF assms(2)])
  also have "real_of_rat (x ^ i) / 10 ^ 27 = real_of_rat (x ^ i / 10 ^ 27)"
    by (simp add: of_rat_divide of_rat_power)
  finally show ?thesis by (simp only: real_of_rat_abs_le)
qed

lemma raw_level_accurate:
  assumes "pw_accurate pw" and "0 < L" and "0 < r" and "raw_level pw L r i = Inr v"
  shows "\<bar>v - L * r ^ i\<bar> \<le> L * r ^ i * 2 / 10 ^ 27"
proof -
  define e :: rat where "e = 1 / 10 ^ 27"
  define A where "A = L * r ^ i"
  have e: "0 < e" "e \<le> 1" by (simp_all add: e_def)
  have A: "0 < A" using assms(2,3) by (simp add: A_def)
  from assms(4) obtain p where p: "dec_pow pw r (of_nat i) = Inr p" and v: "v = round_prec (L * p)"
    by (auto simp: raw_level_def dec_mul_def split: sum.splits)
  from dec_pow_natural_accurate [OF assms(1,3) p] have "\<bar>p - r ^ i\<bar> \<le> r ^ i * e"
    by (simp add: e_def)
  then have "L * \<bar>p - r ^ i\<bar> \<le> L * (r ^ i * e)" using assms(2) by (simp add: mult_left_mono)
  moreover have "L * p - A = L * (p - r ^ i)" by (simp add: A_def right_diff_distrib)
  then have "\<bar>L * p - A\<bar> = L * \<bar>p - r ^ i\<bar>" using assms(2) by (simp add: abs_mult)
  ultimately have 1: "\<bar>L * p - A\<bar> \<le> A * e" by (simp add: A_def mult.assoc)
  then have 2: "L * p \<le> A * (1 + e)" and low: "A * (1 - e) \<le> L * p"
    by (simp_all add: abs_le_iff algebra_simps)
  have "0 \<le> A * (1 - e)" using A e by simp
  with low have Lp: "0 \<le> L * p" by linarith
  have "\<bar>v - L * p\<bar> \<le> L * p * (e / 2)"
    using round_prec_relative [of "L * p"] Lp by (simp add: v e_def)
  also have "\<dots> \<le> A * (1 + e) * (e / 2)" using 2 e by (simp add: mult_right_mono)
  also have "\<dots> = A * e * ((1 + e) / 2)" by simp
  also have "\<dots> \<le> A * e * 1" using A e by (intro mult_left_mono) simp_all
  finally have 3: "\<bar>v - L * p\<bar> \<le> A * e" by simp
  have "\<bar>v - A\<bar> \<le> \<bar>v - L * p\<bar> + \<bar>L * p - A\<bar>" by simp
  with 1 3 have "\<bar>v - A\<bar> \<le> A * e + A * e" by linarith
  then show ?thesis by (simp add: A_def e_def)
qed

lemma adjacent_ratio:
  fixes a b A r e :: rat
  assumes "0 < A" and "0 < r" and "0 \<le> e" and "e \<le> 1 / 5"
    and a: "\<bar>a - A\<bar> \<le> A * e" and b: "\<bar>b - r * A\<bar> \<le> r * A * e"
  shows "\<bar>b / a - r\<bar> \<le> r * (5 / 2 * e)"
proof -
  from a have lo: "A * (1 - e) \<le> a" by (simp add: abs_le_iff algebra_simps)
  have "A * (4 / 5) \<le> A * (1 - e)" using assms(1,4) by (intro mult_left_mono) simp_all
  with lo have a45: "A * (4 / 5) \<le> a" by linarith
  have "0 < A * (4 / 5)" using assms(1) by simp
  with a45 have apos: "0 < a" by linarith
  have "\<bar>b - r * a\<bar> \<le> \<bar>b - r * A\<bar> + \<bar>r * A - r * a\<bar>" by simp
  also have "\<bar>r * A - r * a\<bar> = r * \<bar>a - A\<bar>"
  proof -
    have "r * A - r * a = r * (A - a)" by (simp add: right_diff_distrib)
    then show ?thesis using assms(2) by (simp add: abs_mult abs_minus_commute)
  qed
  also have "\<bar>b - r * A\<bar> + r * \<bar>a - A\<bar> \<le> r * A * e + r * (A * e)"
    using b a assms(2) by (intro add_mono mult_left_mono) simp_all
  finally have d: "\<bar>b - r * a\<bar> \<le> 2 * (r * e) * A" by (simp add: algebra_simps)
  have "2 * (r * e) * A = 5 / 2 * (r * e) * (A * (4 / 5))" by simp
  also have "\<dots> \<le> 5 / 2 * (r * e) * a"
    using a45 assms(2,3) by (intro mult_left_mono) simp_all
  finally have f: "\<bar>b - r * a\<bar> \<le> 5 / 2 * (r * e) * a" using d by linarith
  have "b / a - r = (b - r * a) / a" using apos by (simp add: diff_divide_distrib)
  then have "\<bar>b / a - r\<bar> = \<bar>b - r * a\<bar> / a" using apos by (simp add: abs_divide)
  also have "\<dots> \<le> (5 / 2 * (r * e) * a) / a"
    using f apos by (intro divide_right_mono) simp_all
  also have "\<dots> = 5 / 2 * (r * e)" using apos by simp
  finally show ?thesis by (simp add: mult_ac)
qed

text \<open>
  C5 (amended). For a valid configuration and a power that is accurate to one unit in the
  28th digit, the raw levels are the \<open>num_grids + 1\<close> values \<open>lower_price * ratio ^ i\<close>,
  \<open>i = 0, \<dots>, num_grids\<close>, each up to a relative error of \<open>2 / 10 ^ 27\<close>, and every two
  adjacent raw levels have the quotient \<open>ratio\<close> up to a relative error of \<open>5 / 10 ^ 27\<close>.
  Here \<open>ratio\<close> is the positive decimal value of
  \<open>(upper_price / lower_price) ** (1 / num_grids)\<close>: it is within \<open>1 / 10 ^ 27\<close>
  (relative) of the real power \<open>q powr y\<close> of the decimal quotients \<open>q\<close> and \<open>y\<close>, which are
  the exact quotients rounded to 28 digits.
\<close>

theorem raw_levels_geometric:
  assumes "valid_config upper_price lower_price num_grids"
    and "pw_accurate pw"
    and "raw_levels pw upper_price lower_price num_grids = Inr raw"
  shows "\<exists>q y ratio.
           dec_div upper_price lower_price = Inr q \<and>
           dec_div 1 (of_int num_grids) = Inr y \<and>
           dec_pow pw q y = Inr ratio \<and>
           \<bar>q - upper_price / lower_price\<bar> \<le> upper_price / lower_price / (2 * 10 ^ 27) \<and>
           \<bar>y - 1 / of_int num_grids\<bar> \<le> 1 / of_int num_grids / (2 * 10 ^ 27) \<and>
           \<bar>real_of_rat ratio - real_of_rat q powr real_of_rat y\<bar> \<le>
             real_of_rat q powr real_of_rat y / 10 ^ 27 \<and>
           0 < ratio \<and>
           length raw = nat (num_grids + 1) \<and>
           (\<forall>i<length raw.
              \<bar>raw ! i - lower_price * ratio ^ i\<bar> \<le> lower_price * ratio ^ i * 2 / 10 ^ 27) \<and>
           (\<forall>i. Suc i < length raw \<longrightarrow>
              \<bar>raw ! Suc i / raw ! i - ratio\<bar> \<le> ratio * 5 / 10 ^ 27)"
proof -
  from assms(1) have L: "0 < lower_price" and U: "0 < upper_price" and n: "1 \<le> num_grids"
    by (auto simp: valid_config_def)
  from assms(3) obtain ratio where r: "grid_ratio pw upper_price lower_price num_grids = Inr ratio"
    and m: "map_result (raw_level pw lower_price ratio) [0..<nat (num_grids + 1)] = Inr raw"
    by (auto simp: raw_levels_def split: sum.splits)
  from r obtain q y where q: "dec_div upper_price lower_price = Inr q"
    and y: "dec_div 1 (of_int num_grids) = Inr y" and p: "dec_pow pw q y = Inr ratio"
    by (auto simp: grid_ratio_def split: sum.splits)
  have len: "length raw = nat (num_grids + 1)" using map_result_length [OF m] by simp
  have quot: "0 < upper_price / lower_price" using L U by simp
  from q L have qd: "q = round_prec (upper_price / lower_price)"
    by (auto simp: dec_div_def split: if_splits)
  from y n have yd: "y = round_prec (1 / of_int num_grids)"
    by (auto simp: dec_div_def split: if_splits)
  have qpos: "0 < q" unfolding qd by (rule round_prec_pos [OF quot])
  have qerr: "\<bar>q - upper_price / lower_price\<bar> \<le> upper_price / lower_price / (2 * 10 ^ 27)"
    using round_prec_relative [of "upper_price / lower_price"] quot by (simp add: qd)
  have "0 < 1 / (of_int num_grids :: rat)" using n by simp
  then have yerr: "\<bar>y - 1 / of_int num_grids\<bar> \<le> 1 / of_int num_grids / (2 * 10 ^ 27)"
    using round_prec_relative [of "1 / of_int num_grids"] by (simp add: yd)
  define v where "v = real_of_rat q powr real_of_rat y"
  have vpos: "0 < v" using qpos by (simp add: v_def)
  have acc: "\<bar>real_of_rat ratio - v\<bar> \<le> v / 10 ^ 27"
    unfolding v_def by (rule dec_pow_accurate [OF assms(2) qpos p])
  have "v / 10 ^ 27 < v" using vpos by simp
  with acc have "0 < real_of_rat ratio" by linarith
  then have rpos: "0 < ratio" by (simp only: zero_less_of_rat_iff)
  have level: "\<bar>raw ! i - lower_price * ratio ^ i\<bar> \<le> lower_price * ratio ^ i * 2 / 10 ^ 27"
    if "i < length raw" for i
  proof -
    from that len have i: "i < length [0..<nat (num_grids + 1)]" by simp
    from map_result_nth [OF m i] i have "raw_level pw lower_price ratio i = Inr (raw ! i)"
      by simp
    then show ?thesis by (rule raw_level_accurate [OF assms(2) L rpos])
  qed
  have adjacent: "\<bar>raw ! Suc i / raw ! i - ratio\<bar> \<le> ratio * 5 / 10 ^ 27"
    if "Suc i < length raw" for i
  proof -
    define A where "A = lower_price * ratio ^ i"
    have A: "0 < A" using L rpos by (simp add: A_def)
    from that have "i < length raw" by simp
    from level [OF this] have a: "\<bar>raw ! i - A\<bar> \<le> A * (2 / 10 ^ 27)" by (simp add: A_def)
    from level [OF that] have b: "\<bar>raw ! Suc i - ratio * A\<bar> \<le> ratio * A * (2 / 10 ^ 27)"
      by (simp add: A_def mult_ac)
    have "\<bar>raw ! Suc i / raw ! i - ratio\<bar> \<le> ratio * (5 / 2 * (2 / 10 ^ 27))"
      by (rule adjacent_ratio [OF A rpos _ _ a b]) simp_all
    then show ?thesis by simp
  qed
  from q y p qerr yerr acc rpos len level adjacent show ?thesis
    unfolding v_def by blast
qed

section \<open>Evaluating decimal arithmetic on numerals\<close>

lemma floor_rat_numeral_div [simp]:
  "\<lfloor>numeral a / numeral b :: rat\<rfloor> = numeral a div numeral b"
  using floor_divide_of_int_eq [of "numeral a" "numeral b", where ?'a = rat] by simp

lemma floor_rat_one_div [simp]:
  "\<lfloor>1 / numeral b :: rat\<rfloor> = 1 div numeral b"
  using floor_divide_of_int_eq [of 1 "numeral b", where ?'a = rat] by simp

lemma ceiling_rat_numeral_div [simp]:
  "\<lceil>numeral a / numeral b :: rat\<rceil> = - (- numeral a div numeral b)"
  using ceiling_divide_eq_div [of "numeral a" "numeral b", where ?'a = rat] by simp

lemma digits_numeral [simp]:
  "digits (numeral k) = (if numeral k < (10::int) then 1 else Suc (digits (numeral k div 10)))"
  by (rule digits.simps)

lemma digits_1 [simp]: "digits 1 = 1"
  by (subst digits.simps) simp

lemma digits_0 [simp]: "digits 0 = 1"
  by (subst digits.simps) simp

lemmas dec_eval = round_prec_def adjusted_def pow10_def round_half_even_def round_down_def
  prec_def Let_def dec_div_def dec_mul_def dec_sub_def dec_abs_def dec_pow_def quantize_def
  power_divide PRICE_PRECISION_def

section \<open>The script's own configuration: 0.70, 0.60, 10 grids\<close>

lemma tenth_root_rounded:
  "(tenth_root_70_60 - 5 / 10 ^ 28) ^ 10 < ratio_70_60 \<and>
   ratio_70_60 < (tenth_root_70_60 + 5 / 10 ^ 28) ^ 10"
  by (simp add: tenth_root_70_60_def ratio_70_60_def power_divide)

lemma grid_ratio_70_60:
  "grid_ratio decimal_power (7 / 10) (6 / 10) 10 = Inr tenth_root_70_60"
proof -
  have "dec_div (7 / 10) (6 / 10) = Inr ratio_70_60"
    by (simp add: dec_eval ratio_70_60_def)
  moreover have "dec_div 1 10 = Inr (1 / 10)"
    by (simp add: dec_eval)
  moreover have "dec_pow decimal_power ratio_70_60 (1 / 10) = Inr tenth_root_70_60"
    by (simp add: dec_pow_def decimal_power_def)
  ultimately show ?thesis by (simp add: grid_ratio_def)
qed

lemma range_11: "[0..<nat (10 + 1)] = [0, 1, 2, 3, 4, 5, 6, 7, 8, 9, 10]"
  by (simp add: upt_rec)

lemma raw_0_70_60:
  "raw_level decimal_power (6 / 10) tenth_root_70_60 0 =
     Inr (6000000000000000000000000000 / 10 ^ 28)"
  by (simp add: raw_level_def decimal_power_def tenth_root_powers_def dec_eval
      tenth_root_70_60_def ratio_70_60_def)

lemma raw_1_70_60:
  "raw_level decimal_power (6 / 10) tenth_root_70_60 1 =
     Inr (6093206958014114735436940026 / 10 ^ 28)"
  by (simp add: raw_level_def decimal_power_def tenth_root_powers_def dec_eval
      tenth_root_70_60_def ratio_70_60_def)

lemma raw_2_70_60:
  "raw_level decimal_power (6 / 10) tenth_root_70_60 2 =
     Inr (6187861838865270295391597250 / 10 ^ 28)"
  by (simp add: raw_level_def decimal_power_def tenth_root_powers_def dec_eval
      tenth_root_70_60_def ratio_70_60_def)

lemma raw_3_70_60:
  "raw_level decimal_power (6 / 10) tenth_root_70_60 3 =
     Inr (6283987135300646636867786034 / 10 ^ 28)"
  by (simp add: raw_level_def decimal_power_def tenth_root_powers_def dec_eval
      tenth_root_70_60_def ratio_70_60_def)

lemma raw_4_70_60:
  "raw_level decimal_power (6 / 10) tenth_root_70_60 4 =
     Inr (6381605689480847387594332746 / 10 ^ 28)"
  by (simp add: raw_level_def decimal_power_def tenth_root_powers_def dec_eval
      tenth_root_70_60_def ratio_70_60_def)

lemma raw_5_70_60:
  "raw_level decimal_power (6 / 10) tenth_root_70_60 5 =
     Inr (6480740698407860230965967428 / 10 ^ 28)"
  by (simp add: raw_level_def decimal_power_def tenth_root_powers_def dec_eval
      tenth_root_70_60_def ratio_70_60_def)

lemma raw_6_70_60:
  "raw_level decimal_power (6 / 10) tenth_root_70_60 6 =
     Inr (6581415719437337903601126108 / 10 ^ 28)"
  by (simp add: raw_level_def decimal_power_def tenth_root_powers_def dec_eval
      tenth_root_70_60_def ratio_70_60_def)

lemma raw_7_70_60:
  "raw_level decimal_power (6 / 10) tenth_root_70_60 7 =
     Inr (6683654675876509683483315198 / 10 ^ 28)"
  by (simp add: raw_level_def decimal_power_def tenth_root_powers_def dec_eval
      tenth_root_70_60_def ratio_70_60_def)

lemma raw_8_70_60:
  "raw_level decimal_power (6 / 10) tenth_root_70_60 8 =
     Inr (6787481862669053594942796324 / 10 ^ 28)"
  by (simp add: raw_level_def decimal_power_def tenth_root_powers_def dec_eval
      tenth_root_70_60_def ratio_70_60_def)

lemma raw_9_70_60:
  "raw_level decimal_power (6 / 10) tenth_root_70_60 9 =
     Inr (6892921952168280221125827126 / 10 ^ 28)"
  by (simp add: raw_level_def decimal_power_def tenth_root_powers_def dec_eval
      tenth_root_70_60_def ratio_70_60_def)

lemma raw_10_70_60:
  "raw_level decimal_power (6 / 10) tenth_root_70_60 10 =
     Inr (6999999999999999999999999978 / 10 ^ 28)"
  by (simp add: raw_level_def decimal_power_def tenth_root_powers_def dec_eval
      tenth_root_70_60_def ratio_70_60_def)

lemma level_0_70_60:
  "quantize ROUND_DOWN PRICE_PRECISION (6000000000000000000000000000 / 10 ^ 28) = Inr (6000 / 10000)"
  by (simp add: dec_eval)

lemma level_1_70_60:
  "quantize ROUND_DOWN PRICE_PRECISION (6093206958014114735436940026 / 10 ^ 28) = Inr (6093 / 10000)"
  by (simp add: dec_eval)

lemma level_2_70_60:
  "quantize ROUND_DOWN PRICE_PRECISION (6187861838865270295391597250 / 10 ^ 28) = Inr (6187 / 10000)"
  by (simp add: dec_eval)

lemma level_3_70_60:
  "quantize ROUND_DOWN PRICE_PRECISION (6283987135300646636867786034 / 10 ^ 28) = Inr (6283 / 10000)"
  by (simp add: dec_eval)

lemma level_4_70_60:
  "quantize ROUND_DOWN PRICE_PRECISION (6381605689480847387594332746 / 10 ^ 28) = Inr (6381 / 10000)"
  by (simp add: dec_eval)

lemma level_5_70_60:
  "quantize ROUND_DOWN PRICE_PRECISION (6480740698407860230965967428 / 10 ^ 28) = Inr (6480 / 10000)"
  by (simp add: dec_eval)

lemma level_6_70_60:
  "quantize ROUND_DOWN PRICE_PRECISION (6581415719437337903601126108 / 10 ^ 28) = Inr (6581 / 10000)"
  by (simp add: dec_eval)

lemma level_7_70_60:
  "quantize ROUND_DOWN PRICE_PRECISION (6683654675876509683483315198 / 10 ^ 28) = Inr (6683 / 10000)"
  by (simp add: dec_eval)

lemma level_8_70_60:
  "quantize ROUND_DOWN PRICE_PRECISION (6787481862669053594942796324 / 10 ^ 28) = Inr (6787 / 10000)"
  by (simp add: dec_eval)

lemma level_9_70_60:
  "quantize ROUND_DOWN PRICE_PRECISION (6892921952168280221125827126 / 10 ^ 28) = Inr (6892 / 10000)"
  by (simp add: dec_eval)

lemma level_10_70_60:
  "quantize ROUND_DOWN PRICE_PRECISION (6999999999999999999999999978 / 10 ^ 28) = Inr (6999 / 10000)"
  by (simp add: dec_eval)

lemma raw_levels_70_60:
  "raw_levels decimal_power (7 / 10) (6 / 10) 10 = Inr example_raw_levels"
  unfolding example_raw_levels_def
  by (simp only: raw_levels_def grid_ratio_70_60 sum.case range_11 map_result.simps
      raw_0_70_60 raw_1_70_60 raw_2_70_60 raw_3_70_60 raw_4_70_60 raw_5_70_60 raw_6_70_60
      raw_7_70_60 raw_8_70_60 raw_9_70_60 raw_10_70_60)

lemma formatted_70_60:
  "map_result (quantize ROUND_DOWN PRICE_PRECISION) example_raw_levels =
     Inr (rev example_grid_levels)"
  unfolding example_raw_levels_def example_grid_levels_def rev.simps append.simps
  by (simp only: map_result.simps sum.case
      level_0_70_60 level_1_70_60 level_2_70_60 level_3_70_60 level_4_70_60 level_5_70_60
      level_6_70_60 level_7_70_60 level_8_70_60 level_9_70_60 level_10_70_60)

lemma unique_70_60:
  "unique_levels (sort_desc (rev example_grid_levels)) = example_grid_levels"
  by (simp add: example_grid_levels_def unique_levels_def sort_desc_def dec_eval tolerance_def)

lemma valid_70_60: "valid_config (7 / 10) (6 / 10) 10"
  by (simp add: valid_config_def)

lemma levels_70_60:
  "calculate_grid_levels decimal_power (7 / 10) (6 / 10) 10 = Inr example_grid_levels"
  by (simp only: calculate_grid_levels_valid [OF valid_70_60 raw_levels_70_60]
      formatted_70_60 sum.case unique_70_60)

lemma decimal_power_cases:
  assumes "decimal_power x y = Inr r"
  shows "(x = ratio_70_60 \<and> y = 1 / 10 \<and> r = tenth_root_70_60) \<or>
         (x = tenth_root_70_60 \<and> (\<exists>k. y = of_nat k \<and> (k, r) \<in> set tenth_root_powers))"
proof (cases "x = ratio_70_60 \<and> y = 1 / 10")
  case True
  with assms show ?thesis by (simp add: decimal_power_def)
next
  case False
  with assms have x: "x = tenth_root_70_60" and y: "y = of_int \<lfloor>y\<rfloor>" "0 \<le> y"
    and m: "map_of tenth_root_powers (nat \<lfloor>y\<rfloor>) = Some r"
    by (auto simp: decimal_power_def split: if_splits option.splits)
  from y have "0 \<le> \<lfloor>y\<rfloor>" by simp
  with y(1) have "y = of_nat (nat \<lfloor>y\<rfloor>)" by simp
  moreover from m have "(nat \<lfloor>y\<rfloor>, r) \<in> set tenth_root_powers" by (rule map_of_SomeD)
  ultimately show ?thesis using x by blast
qed

lemma decimal_power_nonneg: "pw_nonneg decimal_power"
  unfolding pw_nonneg_def
proof (intro allI impI)
  fix x y r
  assume a: "0 \<le> x \<and> decimal_power x y = Inr r"
  then have "r = tenth_root_70_60 \<or> (\<exists>k. (k, r) \<in> set tenth_root_powers)"
    using decimal_power_cases [of x y r] by blast
  moreover have "0 \<le> tenth_root_70_60" by (simp add: tenth_root_70_60_def)
  moreover have "0 \<le> p" if "(k, p) \<in> set tenth_root_powers" for k p
    using that by (auto simp: tenth_root_powers_def)
  ultimately show "0 \<le> r" by blast
qed

lemma tenth_root_powers_rounded:
  "(k, p) \<in> set tenth_root_powers \<Longrightarrow> \<bar>p - tenth_root_70_60 ^ k\<bar> \<le> 5 / 10 ^ 28"
  by (auto simp: tenth_root_powers_def tenth_root_70_60_def power_divide)

lemma tenth_root_ge_1: "1 \<le> tenth_root_70_60"
  by (simp add: tenth_root_70_60_def)

lemma tenth_root_real:
  "\<bar>real_of_rat tenth_root_70_60 - real_of_rat ratio_70_60 powr (1 / 10)\<bar> \<le>
     real_of_rat ratio_70_60 powr (1 / 10) / 10 ^ 27"
proof -
  define Q where "Q = real_of_rat ratio_70_60"
  define T where "T = real_of_rat tenth_root_70_60"
  define h :: real where "h = 5 / 10 ^ 28"
  define v where "v = Q powr (1 / 10)"
  have Q: "0 < Q" by (simp add: Q_def ratio_70_60_def)
  have v: "0 < v" using Q by (simp add: v_def)
  have "v ^ 10 = v powr 10" using v powr_realpow [of v 10] by simp
  also have "\<dots> = Q powr (1 / 10 * 10)" unfolding v_def by (simp only: powr_powr)
  also have "\<dots> = Q" using Q by simp
  finally have v10: "v ^ 10 = Q" .
  have h: "real_of_rat (5 / 10 ^ 28) = h" by (simp add: h_def of_rat_divide of_rat_power)
  from tenth_root_rounded
  have "real_of_rat ((tenth_root_70_60 - 5 / 10 ^ 28) ^ 10) < real_of_rat ratio_70_60"
    and "real_of_rat ratio_70_60 < real_of_rat ((tenth_root_70_60 + 5 / 10 ^ 28) ^ 10)"
    by (simp_all only: of_rat_less)
  then have lo: "(T - h) ^ 10 < v ^ 10" and hi: "v ^ 10 < (T + h) ^ 10"
    by (simp_all only: of_rat_power of_rat_diff of_rat_add h T_def [symmetric] Q_def [symmetric] v10)
  have T1: "1 \<le> T" unfolding T_def using tenth_root_ge_1 by (simp only: one_le_of_rat_iff)
  have hpos: "0 < h" "h \<le> 1 / 2" by (simp_all add: h_def)
  from lo v have 1: "T - h < v" by (intro power_less_imp_less_base [of "T - h" 10 v]) simp_all
  have "0 \<le> T + h" using T1 hpos by linarith
  with hi have 2: "v < T + h" by (intro power_less_imp_less_base [of v 10 "T + h"]) simp_all
  from 1 T1 hpos have "1 / 2 \<le> v" by linarith
  then have "h \<le> v / 10 ^ 27" by (simp add: h_def)
  with 1 2 have "\<bar>T - v\<bar> \<le> v / 10 ^ 27" by linarith
  then show ?thesis by (simp only: T_def v_def Q_def)
qed

lemma decimal_power_accurate: "pw_accurate decimal_power"
  unfolding pw_accurate_def
proof (intro allI impI)
  fix x y r
  assume a: "0 < x \<and> decimal_power x y = Inr r"
  then have x: "0 < x" and d: "decimal_power x y = Inr r" by simp_all
  from decimal_power_cases [OF d]
  show "\<bar>real_of_rat r - real_of_rat x powr real_of_rat y\<bar> \<le>
          real_of_rat x powr real_of_rat y / 10 ^ 27"
  proof
    assume "x = ratio_70_60 \<and> y = 1 / 10 \<and> r = tenth_root_70_60"
    then have e: "x = ratio_70_60" "y = 1 / 10" "r = tenth_root_70_60" by simp_all
    have t: "real_of_rat (1 / 10) = 1 / 10" by (simp add: of_rat_divide)
    show ?thesis unfolding e t by (rule tenth_root_real)
  next
    assume "x = tenth_root_70_60 \<and> (\<exists>k. y = of_nat k \<and> (k, r) \<in> set tenth_root_powers)"
    then obtain k where xt: "x = tenth_root_70_60" and y: "y = of_nat k"
      and k: "(k, r) \<in> set tenth_root_powers" by blast
    have "1 \<le> x ^ k" unfolding xt using tenth_root_ge_1 by (rule one_le_power)
    then have "5 / 10 ^ 28 \<le> x ^ k / 10 ^ 27" by simp
    with tenth_root_powers_rounded [OF k] have "\<bar>r - x ^ k\<bar> \<le> x ^ k / 10 ^ 27"
      unfolding xt by linarith
    then have "\<bar>real_of_rat r - real_of_rat (x ^ k)\<bar> \<le> real_of_rat (x ^ k / 10 ^ 27)"
      by (simp only: real_of_rat_abs_le)
    also have "real_of_rat (x ^ k / 10 ^ 27) = real_of_rat (x ^ k) / 10 ^ 27"
      by (simp add: of_rat_divide of_rat_power)
    finally show ?thesis by (simp only: y powr_of_nat_rat [OF x])
  qed
qed

lemmas grid_eval = calculate_grid_levels_def raw_levels_def grid_ratio_def raw_level_def
  unique_levels_def sort_desc_def tolerance_def valid_config_def upt_rec

section \<open>The top grid level\<close>

text \<open>
  C2. With the script's own parameters (0.70, 0.60, 10 grids) the function returns eleven
  levels, the lowest is 0.6000, and the highest is 0.6999: the raw top level is
  0.6999999999999999999999999978 and is rounded down, while the upper price quantized
  down is 0.7000. With the parameters (1, 0.3, 1 grid), which involve no inexact power,
  the levels are 0.9999 and 0.3000.
\<close>

theorem top_level_below_upper_price:
  "calculate_grid_levels decimal_power (7 / 10) (6 / 10) 10 = Inr example_grid_levels \<and>
   length example_grid_levels = 11 \<and>
   hd example_grid_levels = 6999 / 10000 \<and>
   last example_grid_levels = 6000 / 10000 \<and>
   quantize ROUND_DOWN PRICE_PRECISION (7 / 10) = Inr (7000 / 10000) \<and>
   quantize ROUND_DOWN PRICE_PRECISION (6 / 10) = Inr (6000 / 10000) \<and>
   calculate_grid_levels decimal_power 1 (3 / 10) 1 = Inr [9999 / 10000, 3000 / 10000] \<and>
   quantize ROUND_DOWN PRICE_PRECISION 1 = Inr (10000 / 10000)"
proof -
  have "calculate_grid_levels decimal_power 1 (3 / 10) 1 = Inr [9999 / 10000, 3000 / 10000]"
    by (simp add: grid_eval dec_eval)
  moreover have "quantize ROUND_DOWN PRICE_PRECISION (7 / 10) = Inr (7000 / 10000)"
    "quantize ROUND_DOWN PRICE_PRECISION (6 / 10) = Inr (6000 / 10000)"
    "quantize ROUND_DOWN PRICE_PRECISION 1 = Inr (10000 / 10000)"
    by (simp_all add: dec_eval)
  moreover have "length example_grid_levels = 11" "hd example_grid_levels = 6999 / 10000"
    "last example_grid_levels = 6000 / 10000"
    by (simp_all add: example_grid_levels_def)
  ultimately show ?thesis using levels_70_60 by simp
qed

section \<open>The order intent\<close>

lemma quantize_price_down:
  assumes "\<bar>x\<bar> < 10 ^ 24"
  shows "quantize ROUND_DOWN PRICE_PRECISION x =
           Inr (of_int (round_down (x / PRICE_PRECISION)) * PRICE_PRECISION)"
proof -
  from quantize_down_succeeds [OF assms] obtain y
    where y: "quantize ROUND_DOWN PRICE_PRECISION x = Inr y" by blast
  from quantize_Inr [OF y] y show ?thesis by simp
qed

lemma quantize_quantity_down:
  assumes "\<bar>x\<bar> < 10 ^ 28"
  shows "quantize ROUND_DOWN QUANTITY_PRECISION x = Inr (of_int (round_down x))"
proof -
  from assms have "\<bar>x\<bar> < of_int (10 ^ 28)" by simp
  then have "\<bar>round_down x\<bar> < 10 ^ 28" by (rule round_down_abs_less)
  then show ?thesis by (simp add: quantize_def QUANTITY_PRECISION_def prec_def)
qed

lemma quantize_price_raises:
  assumes "quantize ROUND_DOWN PRICE_PRECISION x = Inl e"
  shows "10 ^ 24 \<le> \<bar>x\<bar>"
proof (rule ccontr)
  assume "\<not> 10 ^ 24 \<le> \<bar>x\<bar>"
  then have "\<bar>x\<bar> < 10 ^ 24" by simp
  from quantize_price_down [OF this] assms show False by simp
qed

lemma quantize_quantity_raises:
  assumes "quantize ROUND_DOWN QUANTITY_PRECISION x = Inl e"
  shows "10 ^ 28 \<le> \<bar>x\<bar>"
proof (rule ccontr)
  assume "\<not> 10 ^ 28 \<le> \<bar>x\<bar>"
  then have "\<bar>x\<bar> < 10 ^ 28" by simp
  from quantize_quantity_down [OF this] assms show False by simp
qed

text \<open>
  C3 (amended). \<^verbatim>\<open>place_limit_order\<close> quantizes the price and the quantity toward zero
  and builds the request with these values; it has no check of the formatted quantity
  (the minimum checks are commented out). For a price below \<open>10 ^ 24\<close> and a quantity
  below \<open>10 ^ 28\<close> in magnitude it always builds the request; for a quantity from 0 up to,
  but not including, one unit the request has the quantity 0. It raises only
  \<open>InvalidOperation\<close>, and only when the price or the quantity is beyond these bounds.
\<close>

theorem place_limit_order_quantizes_down:
  "(\<bar>prc\<bar> < 10 ^ 24 \<and> \<bar>qty\<bar> < 10 ^ 28 \<longrightarrow>
      place_limit_order smb sd qty prc =
        Inr \<lparr>symbol = smb, side = upper sd, type = ''LIMIT'',
             quantity = of_int (round_down qty),
             price = of_int (round_down (prc / PRICE_PRECISION)) * PRICE_PRECISION,
             timeInForce = ''GTC''\<rparr>) \<and>
   (0 \<le> qty \<and> qty < 1 \<and> \<bar>prc\<bar> < 10 ^ 24 \<longrightarrow>
      (\<exists>p. place_limit_order smb sd qty prc = Inr p \<and> quantity p = 0)) \<and>
   (0 \<le> qty \<longrightarrow> of_int (round_down qty) \<le> qty \<and> qty < of_int (round_down qty) + 1) \<and>
   (place_limit_order smb sd qty prc = Inl e \<longrightarrow>
      e = InvalidOperation \<and> (10 ^ 24 \<le> \<bar>prc\<bar> \<or> 10 ^ 28 \<le> \<bar>qty\<bar>))"
proof (intro conjI impI)
  assume "\<bar>prc\<bar> < 10 ^ 24 \<and> \<bar>qty\<bar> < 10 ^ 28"
  then show "place_limit_order smb sd qty prc =
        Inr \<lparr>symbol = smb, side = upper sd, type = ''LIMIT'',
             quantity = of_int (round_down qty),
             price = of_int (round_down (prc / PRICE_PRECISION)) * PRICE_PRECISION,
             timeInForce = ''GTC''\<rparr>"
    by (simp add: place_limit_order_def quantize_price_down quantize_quantity_down)
next
  assume a: "0 \<le> qty \<and> qty < 1 \<and> \<bar>prc\<bar> < 10 ^ 24"
  then have "\<bar>qty\<bar> < 10 ^ 28" by simp
  moreover from a have "round_down qty = 0" by (simp add: round_down_def floor_eq_iff)
  ultimately show "\<exists>p. place_limit_order smb sd qty prc = Inr p \<and> quantity p = 0"
    using a by (simp add: place_limit_order_def quantize_price_down quantize_quantity_down)
next
  assume "0 \<le> qty"
  then show "of_int (round_down qty) \<le> qty" by (rule round_down_le)
next
  assume "0 \<le> qty"
  then show "qty < of_int (round_down qty) + 1" by (rule round_down_gt)
next
  assume a: "place_limit_order smb sd qty prc = Inl e"
  then show "e = InvalidOperation"
    by (auto simp: place_limit_order_def split: sum.splits dest: quantize_Inl)
  from a show "10 ^ 24 \<le> \<bar>prc\<bar> \<or> 10 ^ 28 \<le> \<bar>qty\<bar>"
    by (auto simp: place_limit_order_def split: sum.splits
        dest: quantize_price_raises quantize_quantity_raises)
qed

theorem place_limit_order_quantizes_down_witness:
  "place_limit_order ''CRVUSDT'' ''SELL'' (105 / 10) (60939 / 100000) =
     Inr \<lparr>symbol = ''CRVUSDT'', side = ''SELL'', type = ''LIMIT'',
          quantity = 10, price = 6093 / 10000, timeInForce = ''GTC''\<rparr> \<and>
   (\<exists>p. place_limit_order ''CRVUSDT'' ''BUY'' (999 / 1000) (6 / 10) = Inr p \<and> quantity p = 0)"
  using place_limit_order_quantizes_down [of "60939 / 100000" "105 / 10" "''CRVUSDT''" "''SELL''"]
    place_limit_order_quantizes_down [of "6 / 10" "999 / 1000" "''CRVUSDT''" "''BUY''"]
  by (simp add: round_down_def PRICE_PRECISION_def upper_def upper_char_def)

text \<open>
  Against C3 as stated: for quantity 0.3 and the integer quantity quantum the function
  does not fail, it builds the request with quantity 0.
\<close>

theorem place_limit_order_zero_quantity:
  "place_limit_order ''CRVUSDT'' ''BUY'' (3 / 10) (6 / 10) =
     Inr \<lparr>symbol = ''CRVUSDT'', side = ''BUY'', type = ''LIMIT'',
          quantity = 0, price = 6 / 10, timeInForce = ''GTC''\<rparr>"
  by (simp add: place_limit_order_def dec_eval QUANTITY_PRECISION_def upper_def upper_char_def)

section \<open>Instances of the theorems on grid calculation\<close>

theorem calculate_grid_levels_failure_witness:
  "valid_config (7 / 10) (6 / 10) 10 \<and>
   raw_levels decimal_power (7 / 10) (6 / 10) 10 = Inr example_raw_levels \<and>
   (\<exists>ys. calculate_grid_levels decimal_power (7 / 10) (6 / 10) 10 = Inr ys \<and> ys \<noteq> []) \<and>
   calculate_grid_levels decimal_power (6 / 10) (7 / 10) 10 = Inr [] \<and>
   calculate_grid_levels decimal_power (7 / 10) (6 / 10) 0 = Inr [] \<and>
   calculate_grid_levels decimal_power (7 / 10) 0 10 = Inr []"
proof -
  have b: "\<forall>x\<in>set example_raw_levels. \<bar>x\<bar> < 10 ^ 24"
    by (simp add: example_raw_levels_def)
  have "\<exists>ys. calculate_grid_levels decimal_power (7 / 10) (6 / 10) 10 = Inr ys \<and> ys \<noteq> []"
    using calculate_grid_levels_failure [of decimal_power "7 / 10" "6 / 10" 10 example_raw_levels]
      valid_70_60 raw_levels_70_60 b by blast
  moreover have "calculate_grid_levels decimal_power (6 / 10) (7 / 10) 10 = Inr []"
    using calculate_grid_levels_failure [of decimal_power "6 / 10" "7 / 10" 10] by simp
  moreover have "calculate_grid_levels decimal_power (7 / 10) (6 / 10) 0 = Inr []"
    using calculate_grid_levels_failure [of decimal_power "7 / 10" "6 / 10" 0] by simp
  moreover have "calculate_grid_levels decimal_power (7 / 10) 0 10 = Inr []"
    using calculate_grid_levels_failure [of decimal_power "7 / 10" 0 10] by simp
  ultimately show ?thesis using valid_70_60 raw_levels_70_60 by blast
qed

text \<open>
  Against C4 as stated: the parameters (10^24, 1, 1 grid) are valid, and the function
  returns no levels: quantizing the top level raises \<open>InvalidOperation\<close>, which is not
  caught.
\<close>

theorem valid_parameters_raise:
  "valid_config (10 ^ 24) 1 1 \<and>
   calculate_grid_levels decimal_power (10 ^ 24) 1 1 = Inl InvalidOperation"
  by (simp add: grid_eval dec_eval)

theorem deduplication_keeps_distinct_ticks_witness:
  "valid_config (60005 / 100000) (6 / 10) 1 \<and>
   raw_levels decimal_power (60005 / 100000) (6 / 10) 1 =
     Inr [6 / 10, 6000499999999999999999999998 / 10 ^ 28] \<and>
   calculate_grid_levels decimal_power (60005 / 100000) (6 / 10) 1 = Inr [6000 / 10000] \<and>
   map_result (quantize ROUND_DOWN PRICE_PRECISION)
     [6 / 10, 6000499999999999999999999998 / 10 ^ 28] = Inr [6000 / 10000, 6000 / 10000] \<and>
   [6000 / 10000] = deduplicate_spec (sort_desc [6000 / 10000, 6000 / 10000]) \<and>
   successively (\<lambda>a b. PRICE_PRECISION / 2 < \<bar>a - b\<bar>) [6000 / 10000]"
proof -
  have v: "valid_config (60005 / 100000) (6 / 10) 1"
    by (simp add: valid_config_def)
  have r: "raw_levels decimal_power (60005 / 100000) (6 / 10) 1 =
     Inr [6 / 10, 6000499999999999999999999998 / 10 ^ 28]"
    by (simp add: grid_eval dec_eval)
  have c: "calculate_grid_levels decimal_power (60005 / 100000) (6 / 10) 1 = Inr [6000 / 10000]"
    by (simp add: grid_eval dec_eval)
  have f: "map_result (quantize ROUND_DOWN PRICE_PRECISION)
     [6 / 10, 6000499999999999999999999998 / 10 ^ 28] = Inr [6000 / 10000, 6000 / 10000]"
    by (simp add: dec_eval)
  from deduplication_keeps_distinct_ticks [OF v r c] f
  have "[6000 / 10000] = deduplicate_spec (sort_desc [6000 / 10000, 6000 / 10000]) \<and>
        successively (\<lambda>a b. PRICE_PRECISION / 2 < \<bar>a - b\<bar>) [6000 / 10000]"
    by auto
  with v r c f show ?thesis by blast
qed

theorem calculate_grid_levels_quantized_witness:
  "valid_config (7 / 10) (6 / 10) 10 \<and> pw_nonneg decimal_power \<and>
   raw_levels decimal_power (7 / 10) (6 / 10) 10 = Inr example_raw_levels \<and>
   calculate_grid_levels decimal_power (7 / 10) (6 / 10) 10 = Inr example_grid_levels \<and>
   example_grid_levels \<noteq> [] \<and>
   sorted_wrt (>) example_grid_levels \<and>
   successively (\<lambda>a b. PRICE_PRECISION \<le> a - b) example_grid_levels"
proof -
  have b: "\<forall>x\<in>set example_raw_levels. x < 10 ^ 24"
    by (simp add: example_raw_levels_def)
  from calculate_grid_levels_quantized [OF valid_70_60 decimal_power_nonneg raw_levels_70_60 b]
  obtain ys where ys: "calculate_grid_levels decimal_power (7 / 10) (6 / 10) 10 = Inr ys"
    and p: "ys \<noteq> []" "sorted_wrt (>) ys" "successively (\<lambda>a b. PRICE_PRECISION \<le> a - b) ys"
    by blast
  from ys levels_70_60 have "ys = example_grid_levels" by simp
  with p have "example_grid_levels \<noteq> [] \<and> sorted_wrt (>) example_grid_levels \<and>
        successively (\<lambda>a b. PRICE_PRECISION \<le> a - b) example_grid_levels"
    by simp
  then show ?thesis
    using valid_70_60 decimal_power_nonneg raw_levels_70_60 levels_70_60 by blast
qed

text \<open>
  Against C9 as stated: the parameters (2 * 10^24, 1, 1 grid) are valid and the raw
  levels are computed (1 and 2 * 10^24), but no list is returned: quantizing the top
  level raises \<open>InvalidOperation\<close>.
\<close>

theorem computed_levels_raise:
  "valid_config (2 * 10 ^ 24) 1 1 \<and>
   raw_levels decimal_power (2 * 10 ^ 24) 1 1 = Inr [1, 2 * 10 ^ 24] \<and>
   calculate_grid_levels decimal_power (2 * 10 ^ 24) 1 1 = Inl InvalidOperation"
  by (simp add: grid_eval dec_eval)

theorem raw_levels_geometric_witness:
  "valid_config (7 / 10) (6 / 10) 10 \<and> pw_accurate decimal_power \<and>
   raw_levels decimal_power (7 / 10) (6 / 10) 10 = Inr example_raw_levels \<and>
   grid_ratio decimal_power (7 / 10) (6 / 10) 10 = Inr tenth_root_70_60 \<and>
   length example_raw_levels = 11 \<and>
   \<bar>example_raw_levels ! 10 - 6 / 10 * tenth_root_70_60 ^ 10\<bar> \<le>
     6 / 10 * tenth_root_70_60 ^ 10 * 2 / 10 ^ 27 \<and>
   \<bar>example_raw_levels ! Suc 5 / example_raw_levels ! 5 - tenth_root_70_60\<bar> \<le>
     tenth_root_70_60 * 5 / 10 ^ 27"
proof -
  from raw_levels_geometric [OF valid_70_60 decimal_power_accurate raw_levels_70_60]
  obtain q y ratio where a: "dec_div (7 / 10) (6 / 10) = Inr q" "dec_div 1 (of_int 10) = Inr y"
      "dec_pow decimal_power q y = Inr ratio"
    and len: "length example_raw_levels = nat (10 + 1)"
    and level: "\<forall>i<length example_raw_levels.
        \<bar>example_raw_levels ! i - 6 / 10 * ratio ^ i\<bar> \<le> 6 / 10 * ratio ^ i * 2 / 10 ^ 27"
    and adjacent: "\<forall>i. Suc i < length example_raw_levels \<longrightarrow>
        \<bar>example_raw_levels ! Suc i / example_raw_levels ! i - ratio\<bar> \<le> ratio * 5 / 10 ^ 27"
    by blast
  from a have "grid_ratio decimal_power (7 / 10) (6 / 10) 10 = Inr ratio"
    by (simp add: grid_ratio_def)
  with grid_ratio_70_60 have r: "ratio = tenth_root_70_60" by simp
  from len have l: "length example_raw_levels = 11" by simp
  then have "10 < length example_raw_levels" "Suc 5 < length example_raw_levels" by simp_all
  with level adjacent
  have "\<bar>example_raw_levels ! 10 - 6 / 10 * ratio ^ 10\<bar> \<le> 6 / 10 * ratio ^ 10 * 2 / 10 ^ 27"
    and "\<bar>example_raw_levels ! Suc 5 / example_raw_levels ! 5 - ratio\<bar> \<le> ratio * 5 / 10 ^ 27"
    by blast+
  then show ?thesis
    unfolding r using valid_70_60 decimal_power_accurate raw_levels_70_60 grid_ratio_70_60 l
    by (intro conjI)
qed

text \<open>
  Against C5 as stated: for the script's own configuration the ratio of the raw levels 6
  and 5 is not the computed ratio, neither exactly nor as the decimal quotient (whose
  last digit is 0, not 1), and the top raw level is not the lower price times the tenth
  power of the ratio.
\<close>

theorem adjacent_ratios_differ:
  "raw_levels decimal_power (7 / 10) (6 / 10) 10 = Inr example_raw_levels \<and>
   grid_ratio decimal_power (7 / 10) (6 / 10) 10 = Inr tenth_root_70_60 \<and>
   example_raw_levels ! 6 / example_raw_levels ! 5 \<noteq> tenth_root_70_60 \<and>
   dec_div (example_raw_levels ! 6) (example_raw_levels ! 5) =
     Inr (1015534493002352455906156670 / 10 ^ 27) \<and>
   example_raw_levels ! 10 \<noteq> 6 / 10 * tenth_root_70_60 ^ 10"
proof -
  have "example_raw_levels ! 6 / example_raw_levels ! 5 \<noteq> tenth_root_70_60"
    by (simp add: example_raw_levels_def tenth_root_70_60_def)
  moreover have "dec_div (example_raw_levels ! 6) (example_raw_levels ! 5) =
     Inr (1015534493002352455906156670 / 10 ^ 27)"
    by (simp add: example_raw_levels_def dec_eval)
  moreover have "example_raw_levels ! 10 \<noteq> 6 / 10 * tenth_root_70_60 ^ 10"
    by (simp add: example_raw_levels_def tenth_root_70_60_def power_divide)
  ultimately show ?thesis using raw_levels_70_60 grid_ratio_70_60 by simp
qed

section \<open>Scanning the open orders\<close>

lemma quantize_decimal_Inl: "quantize_decimal r q d = Inl e \<Longrightarrow> e = InvalidOperation"
  by (cases d) (auto split: sum.splits dest: quantize_Inl)

lemma both_sides_lookup [simp]:
  "both_sides B S ''BUY'' = Some B" "both_sides B S ''SELL'' = Some S"
  "sd \<noteq> ''BUY'' \<Longrightarrow> sd \<noteq> ''SELL'' \<Longrightarrow> both_sides B S sd = None"
  by (simp_all add: both_sides_def)

lemma both_sides_update [simp]:
  "(both_sides B S)(''BUY'' \<mapsto> X) = both_sides X S"
  "(both_sides B S)(''SELL'' \<mapsto> X) = both_sides B X"
  by (auto simp: both_sides_def fun_eq_iff)

lemma no_open_prices_both: "no_open_prices = both_sides {} {}"
  by (simp add: no_open_prices_def both_sides_def)

lemma getitem_both_sides:
  "getitem (both_sides B S) key =
     (if \<not> hashable key then Inl TypeError
      else if key = JString ''BUY'' then Inr (''BUY'', B)
      else if key = JString ''SELL'' then Inr (''SELL'', S)
      else Inl KeyError)"
  by (cases key) (auto simp: getitem_def)

lemma add_open_order_counts:
  assumes "order_key D order = Some (sd, p)"
  shows "add_open_order D (both_sides B S) order =
     Inr (both_sides (if sd = ''BUY'' then insert p B else B)
                     (if sd = ''SELL'' then insert p S else S))"
  using assms
  by (auto simp: order_key_def add_open_order_def getitem_both_sides
      split: option.splits sum.splits if_splits json.splits)

lemma order_key_no_error:
  assumes "order_key D order = Some k"
  shows "order_error D order = None"
proof -
  obtain sd p where k: "k = (sd, p)" by (cases k)
  from add_open_order_counts [OF assms [unfolded k], of "{}" "{}"] show ?thesis
    by (simp add: order_error_def no_open_prices_both)
qed

lemma add_open_order_raises:
  assumes "order_error D order = Some e"
  shows "add_open_order D (both_sides B S) order = Inl e" and "e \<noteq> KeyError"
    and "e \<noteq> InvalidOperation"
  using assms
  by (auto simp: order_error_def add_open_order_def getitem_both_sides no_open_prices_both
      split: option.splits sum.splits if_splits)

lemma add_open_order_skips:
  assumes "order_key D order = None" and "order_error D order = None"
  shows "add_open_order D (both_sides B S) order = Inl KeyError \<or>
         add_open_order D (both_sides B S) order = Inl InvalidOperation"
  using assms
  by (auto simp: order_key_def order_error_def add_open_order_def getitem_both_sides
      no_open_prices_both split: option.splits sum.splits if_splits json.splits)

lemma side_prices_Nil [simp]: "side_prices D [] sd = {}"
  by (simp add: side_prices_def)

lemma side_prices_Cons:
  "side_prices D (order # rest) sd =
     (case order_key D order of
        None \<Rightarrow> side_prices D rest sd
      | Some (sd', p) \<Rightarrow> if sd' = sd then insert p (side_prices D rest sd)
                         else side_prices D rest sd)"
  by (auto simp: side_prices_def split: option.splits)

lemma order_key_sides:
  "order_key D order = Some (sd, p) \<Longrightarrow> sd = ''BUY'' \<or> sd = ''SELL''"
  by (auto simp: order_key_def split: option.splits sum.splits if_splits json.splits)

lemma scan_open_orders_result:
  "scan_open_orders D orders \<lparr>open_order_prices = both_sides B S, warned = w\<rparr> =
     (case scan_error D orders of
        Some e \<Rightarrow> Inl e
      | None \<Rightarrow>
          Inr \<lparr>open_order_prices = both_sides (B \<union> side_prices D orders ''BUY'')
                                              (S \<union> side_prices D orders ''SELL''),
               warned = w @ map (\<lambda>order. order ''orderId'')
                              (filter (\<lambda>order. order_key D order = None) orders)\<rparr>)"
proof (induction orders arbitrary: B S w)
  case Nil
  then show ?case by simp
next
  case (Cons order rest)
  show ?case
  proof (cases "order_error D order")
    case (Some e)
    from add_open_order_raises(1) [OF Some, of B S] add_open_order_raises(2,3) [OF Some]
    show ?thesis by (simp add: Some)
  next
    case None
    note no_error = None
    show ?thesis
    proof (cases "order_key D order")
      case None
      from add_open_order_skips [OF None no_error, of B S] show ?thesis
        by (auto simp: Cons.IH side_prices_Cons None no_error split: option.splits)
    next
      case (Some k)
      obtain sd p where k: "k = (sd, p)" by (cases k)
      have sd: "sd = ''BUY'' \<or> sd = ''SELL''"
        using Some k by (auto dest: order_key_sides)
      show ?thesis
        using sd by (auto simp: add_open_order_counts [OF Some [unfolded k]] Cons.IH
            side_prices_Cons Some k no_error split: option.splits)
    qed
  qed
qed

lemma scan_new:
  "scan_open_orders D orders new_scan =
     (case scan_error D orders of
        Some e \<Rightarrow> Inl e
      | None \<Rightarrow>
          Inr \<lparr>open_order_prices = both_sides (side_prices D orders ''BUY'')
                                              (side_prices D orders ''SELL''),
               warned = map (\<lambda>order. order ''orderId'')
                          (filter (\<lambda>order. order_key D order = None) orders)\<rparr>)"
  using scan_open_orders_result [of D orders "{}" "{}" "[]"]
  by (simp add: new_scan_def no_open_prices_both split: option.splits)

lemma scan_error_append:
  "scan_error D (xs @ ys) =
     (case scan_error D xs of Some e \<Rightarrow> Some e | None \<Rightarrow> scan_error D ys)"
  by (induction xs) (auto split: option.splits)


lemma readable_no_error:
  assumes "readable order"
  shows "order_error D order = None"
proof (cases "order ''price''")
  case None
  then show ?thesis by (simp add: order_error_def add_open_order_def)
next
  case (Some v)
  with assms have v: "scalar v" by (simp add: readable_def)
  then have d: "Decimal D v = Inl InvalidOperation \<or> (\<exists>d. Decimal D v = Inr d)"
    by (cases v) (auto split: option.splits)
  show ?thesis
  proof (cases "order ''side''")
    case None
    with Some d show ?thesis
      by (auto simp: order_error_def add_open_order_def split: sum.splits
          dest: quantize_decimal_Inl)
  next
    case (Some key)
    with assms have "hashable key" by (simp add: readable_def)
    with Some \<open>order ''price'' = Some v\<close> d show ?thesis
      by (auto simp: order_error_def add_open_order_def getitem_both_sides no_open_prices_both
          split: sum.splits dest: quantize_decimal_Inl)
  qed
qed

lemma scan_error_readable:
  "\<forall>order\<in>set orders. readable order \<Longrightarrow> scan_error D orders = None"
  by (induction orders) (simp_all add: readable_no_error)

section \<open>Maintaining the grid\<close>

lemma upper_sides [simp]: "upper ''BUY'' = ''BUY''" "upper ''SELL'' = ''SELL''"
  by (simp_all add: upper_def upper_char_def)

lemma place_limit_order_on_grid:
  assumes "on_grid level"
  shows "place_limit_order TARGET_SYMBOL sd ORDER_QTY_PER_GRID level =
     Inr \<lparr>symbol = TARGET_SYMBOL, side = upper sd, type = ''LIMIT'',
          quantity = 10, price = level, timeInForce = ''GTC''\<rparr>"
proof -
  have "quantize ROUND_DOWN QUANTITY_PRECISION ORDER_QTY_PER_GRID = Inr 10"
    by (simp add: quantize_def round_down_def prec_def QUANTITY_PRECISION_def
        ORDER_QTY_PER_GRID_def)
  then show ?thesis
    by (simp add: place_limit_order_def quantize_fixes_grid [OF assms])
qed

lemma maintain_level_on_grid:
  assumes "on_grid level"
  shows "\<exists>st'. maintain_level net cur (both_sides B S) level st = Inr st' \<and>
           map placement (sent st') =
             map placement (sent st) @
             reconcile_spec cur [level] (\<lambda>L. Finite L \<in> B) (\<lambda>L. Finite L \<in> S)"
  by (auto simp: maintain_level_def place_missing_def reconcile_spec_def placement_def
      quantize_fixes_grid [OF assms] place_limit_order_on_grid [OF assms])

lemma reconcile_spec_Cons:
  "reconcile_spec cur (level # rest) ob os =
     reconcile_spec cur [level] ob os @ reconcile_spec cur rest ob os"
  by (simp add: reconcile_spec_def)

lemma maintain_grid_on_grid:
  "\<forall>L\<in>set levels. on_grid L \<Longrightarrow>
     \<exists>st'. maintain_grid net cur (both_sides B S) levels st = (st', None) \<and>
           map placement (sent st') =
             map placement (sent st) @
             reconcile_spec cur levels (\<lambda>L. Finite L \<in> B) (\<lambda>L. Finite L \<in> S)"
proof (induction levels arbitrary: st)
  case Nil
  then show ?case by (simp add: reconcile_spec_def)
next
  case (Cons level rest)
  then have g: "on_grid level" and r: "\<forall>L\<in>set rest. on_grid L" by simp_all
  from maintain_level_on_grid [OF g, of net cur B S st] obtain st1
    where 1: "maintain_level net cur (both_sides B S) level st = Inr st1"
      and s1: "map placement (sent st1) = map placement (sent st) @
                 reconcile_spec cur [level] (\<lambda>L. Finite L \<in> B) (\<lambda>L. Finite L \<in> S)"
    by blast
  from Cons.IH [OF r, of st1] obtain st2
    where 2: "maintain_grid net cur (both_sides B S) rest st1 = (st2, None)"
      and s2: "map placement (sent st2) = map placement (sent st1) @
                 reconcile_spec cur rest (\<lambda>L. Finite L \<in> B) (\<lambda>L. Finite L \<in> S)"
    by blast
  show ?case using 1 2 s1 s2 by (simp add: reconcile_spec_Cons [of cur level rest])
qed

lemma grid_tick_on_grid:
  assumes "\<forall>L\<in>set levels. on_grid L" and scan: "scan_error D orders = None"
  shows "snd (grid_tick net D levels (Some cur) orders) = None"
    and "placements (grid_tick net D levels (Some cur) orders) =
           reconcile_spec cur levels (open_at D orders ''BUY'') (open_at D orders ''SELL'')"
proof -
  have o: "(\<lambda>L. Finite L \<in> side_prices D orders sd) = open_at D orders sd" for sd
    by (simp add: side_prices_def open_at_def fun_eq_iff)
  from maintain_grid_on_grid [OF assms(1), of net cur "side_prices D orders ''BUY''"
      "side_prices D orders ''SELL''" new_cycle]
  obtain st' where m: "maintain_grid net cur
        (both_sides (side_prices D orders ''BUY'') (side_prices D orders ''SELL''))
        levels new_cycle = (st', None)"
    and s: "map placement (sent st') = map placement (sent new_cycle) @
        reconcile_spec cur levels (\<lambda>L. Finite L \<in> side_prices D orders ''BUY'')
          (\<lambda>L. Finite L \<in> side_prices D orders ''SELL'')"
    by blast
  from m show "snd (grid_tick net D levels (Some cur) orders) = None"
    by (simp add: grid_tick_def scan_new scan)
  from m s show "placements (grid_tick net D levels (Some cur) orders) =
           reconcile_spec cur levels (open_at D orders ''BUY'') (open_at D orders ''SELL'')"
    by (simp add: grid_tick_def scan_new scan placements_def o new_cycle_def)
qed


section \<open>Independence of the transport\<close>

lemma maintain_level_transport:
  assumes "sent st1 = sent st2"
  shows "(\<exists>e. maintain_level net1 cur prices level st1 = Inl e \<and>
              maintain_level net2 cur prices level st2 = Inl e) \<or>
         (\<exists>a b. maintain_level net1 cur prices level st1 = Inr a \<and>
                maintain_level net2 cur prices level st2 = Inr b \<and> sent a = sent b)"
  using assms
  by (auto simp: maintain_level_def place_missing_def split: sum.splits option.splits)

lemma maintain_grid_transport:
  "sent st1 = sent st2 \<Longrightarrow>
     sent (fst (maintain_grid net1 cur prices levels st1)) =
       sent (fst (maintain_grid net2 cur prices levels st2)) \<and>
     snd (maintain_grid net1 cur prices levels st1) =
       snd (maintain_grid net2 cur prices levels st2)"
proof (induction levels arbitrary: st1 st2)
  case Nil
  then show ?case by simp
next
  case (Cons level rest)
  from maintain_level_transport [OF Cons.prems, of net1 cur prices level net2]
  show ?case
  proof
    assume "\<exists>e. maintain_level net1 cur prices level st1 = Inl e \<and>
              maintain_level net2 cur prices level st2 = Inl e"
    with Cons.prems show ?thesis by auto
  next
    assume "\<exists>a b. maintain_level net1 cur prices level st1 = Inr a \<and>
                maintain_level net2 cur prices level st2 = Inr b \<and> sent a = sent b"
    then obtain a b where "maintain_level net1 cur prices level st1 = Inr a"
      "maintain_level net2 cur prices level st2 = Inr b" "sent a = sent b" by blast
    with Cons.IH [of a b] show ?thesis by simp
  qed
qed

lemma grid_tick_transport:
  "placements (grid_tick net1 D levels current_price orders) =
     placements (grid_tick net2 D levels current_price orders) \<and>
   snd (grid_tick net1 D levels current_price orders) =
     snd (grid_tick net2 D levels current_price orders)"
proof (cases current_price)
  case None
  then show ?thesis by (simp add: grid_tick_def)
next
  case (Some cur)
  have "sent (fst (maintain_grid net1 cur P levels new_cycle)) =
          sent (fst (maintain_grid net2 cur P levels new_cycle)) \<and>
        snd (maintain_grid net1 cur P levels new_cycle) =
          snd (maintain_grid net2 cur P levels new_cycle)" for P
    by (rule maintain_grid_transport) simp
  then show ?thesis
    by (simp add: Some grid_tick_def scan_new placements_def split: option.splits)
qed

section \<open>Dependence on the open orders\<close>

lemma grid_tick_side_prices:
  assumes "side_prices D orders1 ''BUY'' = side_prices D orders2 ''BUY''"
    and "side_prices D orders1 ''SELL'' = side_prices D orders2 ''SELL''"
    and "scan_error D orders1 = scan_error D orders2"
  shows "fst (grid_tick net D levels current_price orders1) =
           fst (grid_tick net D levels current_price orders2) \<and>
         snd (grid_tick net D levels current_price orders1) =
           snd (grid_tick net D levels current_price orders2)"
  using assms by (cases current_price) (simp_all add: grid_tick_def scan_new split: option.splits)


section \<open>The reconciler\<close>

lemma main_loop_placements:
  "map placements (main_loop D grid_levels observations) =
     map (\<lambda>(net, current_price, open_orders_list).
            case current_price of
              None \<Rightarrow> []
            | Some cur \<Rightarrow> reconcile D cur grid_levels open_orders_list) observations"
proof (induction observations)
  case Nil
  then show ?case by simp
next
  case (Cons ob rest)
  obtain net current_price open_orders_list where ob: "ob = (net, current_price, open_orders_list)"
    by (cases ob)
  have "placements (grid_tick net D grid_levels current_price open_orders_list) =
      (case current_price of None \<Rightarrow> []
       | Some cur \<Rightarrow> reconcile D cur grid_levels open_orders_list)"
  proof (cases current_price)
    case None
    then show ?thesis by (simp add: grid_tick_def placements_def new_cycle_def)
  next
    case (Some cur)
    then show ?thesis
      using grid_tick_transport [of net D grid_levels "Some cur" open_orders_list "\<lambda>p. False"]
      by (simp add: reconcile_def)
  qed
  with Cons.IH show ?case by (simp add: ob)
qed




lemma side_prices_unparsable:
  assumes "order_key D order = None"
  shows "side_prices D (before @ order # after) sd = side_prices D (before @ after) sd"
  using assms by (auto simp: side_prices_def image_iff)

lemma unparsable_key: "unparsable D order \<Longrightarrow> order_key D order = None"
  by (auto simp: unparsable_def order_key_def split: option.splits sum.splits)

lemma unparsable_no_error: "unparsable D order \<Longrightarrow> order_error D order = None"
  by (auto simp: unparsable_def order_error_def add_open_order_def
      split: option.splits sum.splits)

lemma scan_error_unparsable:
  assumes "order_error D order = None"
  shows "scan_error D (before @ order # after) = scan_error D (before @ after)"
  using assms by (simp add: scan_error_append split: option.splits)

lemma example_levels_on_grid: "\<forall>L\<in>set example_levels. on_grid L"
  by (simp add: example_levels_def on_grid_def PRICE_PRECISION_def prec_def)

lemma example_keys:
  "order_key example_parser example_buy = Some (''BUY'', Finite (62 / 100))"
  "order_key example_parser example_sell = Some (''SELL'', Finite (68 / 100))"
  "order_key example_parser example_broken = None"
  "order_key example_parser example_null = None"
  by (simp_all add: order_key_def example_parser_def example_buy_def example_sell_def
      example_broken_def example_null_def quantize_def round_half_even_def prec_def
      PRICE_PRECISION_def Let_def)

lemma example_readable:
  "readable example_buy" "readable example_sell" "readable example_broken"
  by (simp_all add: readable_def example_buy_def example_sell_def example_broken_def)

lemma example_errors:
  "order_error example_parser example_buy = None"
  "order_error example_parser example_sell = None"
  "order_error example_parser example_broken = None"
  "order_error example_parser example_null = Some TypeError"
  by (simp_all add: readable_no_error example_readable)
    (simp add: order_error_def add_open_order_def example_null_def)



text \<open>
  C7. The placements of a pass are a function of the price, the levels and the open
  orders: they are the same whatever the transport answers, an exception ends the pass
  at the same level, and in the main loop the placements of every pass are that function
  of the pass's own observation, whatever came before.
\<close>

theorem reconcile_deterministic:
  "placements (grid_tick net D grid_levels (Some current_price) open_orders_list) =
     reconcile D current_price grid_levels open_orders_list \<and>
   snd (grid_tick net D grid_levels (Some current_price) open_orders_list) =
     snd (grid_tick net' D grid_levels (Some current_price) open_orders_list) \<and>
   map placements (main_loop D grid_levels observations) =
     map (\<lambda>(net, current_price, open_orders_list).
            case current_price of
              None \<Rightarrow> []
            | Some cur \<Rightarrow> reconcile D cur grid_levels open_orders_list) observations"
  using grid_tick_transport [of net D grid_levels "Some current_price" open_orders_list "\<lambda>p. False"]
    grid_tick_transport [of net D grid_levels "Some current_price" open_orders_list net']
    main_loop_placements [of D grid_levels observations]
  by (simp add: reconcile_def)

theorem reconcile_deterministic_witness:
  "placements (grid_tick (\<lambda>p. True) example_parser example_levels (Some (65 / 100)) [example_sell]) =
     reconcile example_parser (65 / 100) example_levels [example_sell] \<and>
   map placements (main_loop example_parser example_levels
       [(\<lambda>p. True, Some (65 / 100), [example_sell]), (\<lambda>p. False, None, []),
        (\<lambda>p. False, Some (65 / 100), [example_sell])]) =
     [reconcile example_parser (65 / 100) example_levels [example_sell], [],
      reconcile example_parser (65 / 100) example_levels [example_sell]]"
  using reconcile_deterministic [of "\<lambda>p. True" example_parser example_levels "65 / 100"
      "[example_sell]" "\<lambda>p. True"
      "[(\<lambda>p. True, Some (65 / 100), [example_sell]), (\<lambda>p. False, None, []),
        (\<lambda>p. False, Some (65 / 100), [example_sell])]"]
  by simp

text \<open>
  C8 (amended). An open order whose price field is missing, or whose price makes the
  constructor or the quantization raise \<open>InvalidOperation\<close> (a string that is no numeral,
  an infinity, too many digits), does not end the scan and changes nothing: the pass is
  the pass without that order, whatever the other orders are. When the other orders are
  of the documented kinds, the scan ends without exception, the \<open>orderId\<close> of the skipped
  order is among the warnings, and the price sets are those of the other orders.
\<close>

theorem unparsable_order_skipped:
  assumes "unparsable D order"
  shows "grid_tick net D grid_levels current_price (before @ order # after) =
           grid_tick net D grid_levels current_price (before @ after) \<and>
         ((\<forall>other\<in>set (before @ after). readable other) \<longrightarrow>
            (\<exists>sc sc'. scan_open_orders D (before @ order # after) new_scan = Inr sc \<and>
               scan_open_orders D (before @ after) new_scan = Inr sc' \<and>
               open_order_prices sc = open_order_prices sc' \<and>
               open_order_prices sc =
                 both_sides (side_prices D (before @ after) ''BUY'')
                   (side_prices D (before @ after) ''SELL'') \<and>
               order ''orderId'' \<in> set (warned sc)))"
proof -
  have k: "order_key D order = None" by (rule unparsable_key [OF assms])
  have e: "order_error D order = None" by (rule unparsable_no_error [OF assms])
  note s = side_prices_unparsable [OF k, of before "after"]
  note se = scan_error_unparsable [OF e, of before "after"]
  have tick: "grid_tick net D grid_levels current_price (before @ order # after) =
          grid_tick net D grid_levels current_price (before @ after)"
    using grid_tick_side_prices [of D "before @ order # after" "before @ after" net grid_levels
        current_price] s se
    by (simp add: prod_eq_iff)
  have "\<exists>sc sc'. scan_open_orders D (before @ order # after) new_scan = Inr sc \<and>
               scan_open_orders D (before @ after) new_scan = Inr sc' \<and>
               open_order_prices sc = open_order_prices sc' \<and>
               open_order_prices sc =
                 both_sides (side_prices D (before @ after) ''BUY'')
                   (side_prices D (before @ after) ''SELL'') \<and>
               order ''orderId'' \<in> set (warned sc)"
    if "\<forall>other\<in>set (before @ after). readable other"
  proof -
    have "scan_error D (before @ after) = None" by (rule scan_error_readable [OF that])
    with se have "scan_error D (before @ order # after) = None" by simp
    with \<open>scan_error D (before @ after) = None\<close> show ?thesis by (simp add: scan_new s k)
  qed
  with tick show ?thesis by blast
qed

theorem unparsable_order_skipped_witness:
  "unparsable example_parser example_broken \<and>
   readable example_buy \<and> readable example_sell \<and>
   (\<exists>sc. scan_open_orders example_parser [example_buy, example_broken, example_sell] new_scan = Inr sc \<and>
      open_order_prices sc = both_sides {Finite (62 / 100)} {Finite (68 / 100)} \<and>
      warned sc = [Some (JInt 13)]) \<and>
   grid_tick (\<lambda>p. True) example_parser example_levels (Some (65 / 100))
       [example_buy, example_broken, example_sell] =
     grid_tick (\<lambda>p. True) example_parser example_levels (Some (65 / 100))
       [example_buy, example_sell]"
proof -
  have u: "unparsable example_parser example_broken"
    by (simp add: unparsable_def example_broken_def example_parser_def)
  have r: "\<forall>other\<in>set ([example_buy] @ [example_sell]). readable other"
    by (simp add: example_readable)
  have sp: "side_prices example_parser [example_buy, example_sell] ''BUY'' = {Finite (62 / 100)}"
    "side_prices example_parser [example_buy, example_sell] ''SELL'' = {Finite (68 / 100)}"
    by (auto simp: side_prices_def example_keys)
  have w: "example_broken ''orderId'' = Some (JInt 13)" by (simp add: example_broken_def)
  from unparsable_order_skipped [OF u, of "\<lambda>p. True" example_levels "Some (65 / 100)"
      "[example_buy]" "[example_sell]"]
  show ?thesis using u r by (auto simp: sp scan_new example_keys example_errors w example_readable)
qed

text \<open>
  Against C8 as stated: an open order whose price is the JSON value \<open>null\<close> is not
  skipped. The constructor raises \<open>TypeError\<close>, which the handler inside the scan does
  not catch: the scan ends, the pass ends with that exception and places nothing, while
  without that order the pass places a BUY at 0.60 and a SELL at 0.70.
\<close>

theorem null_price_ends_pass:
  "example_null ''price'' = Some JNull \<and>
   scan_open_orders example_parser [example_buy, example_null, example_sell] new_scan =
     Inl TypeError \<and>
   grid_tick (\<lambda>p. True) example_parser example_levels (Some (65 / 100))
       [example_buy, example_null, example_sell] = (new_cycle, Some TypeError) \<and>
   placements (grid_tick (\<lambda>p. True) example_parser example_levels (Some (65 / 100))
       [example_buy, example_null, example_sell]) = [] \<and>
   placements (grid_tick (\<lambda>p. True) example_parser example_levels (Some (65 / 100))
       [example_buy, example_sell]) = [(60 / 100, ''BUY''), (70 / 100, ''SELL'')]"
proof -
  have e: "scan_error example_parser [example_buy, example_null, example_sell] = Some TypeError"
    by (simp add: example_errors)
  have n: "scan_error example_parser [example_buy, example_sell] = None"
    by (simp add: example_errors)
  have without: "placements (grid_tick (\<lambda>p. True) example_parser example_levels (Some (65 / 100))
       [example_buy, example_sell]) = [(60 / 100, ''BUY''), (70 / 100, ''SELL'')]"
    unfolding grid_tick_on_grid(2) [OF example_levels_on_grid n]
    by (simp add: reconcile_spec_def open_at_def example_keys example_levels_def)
  have price: "example_null ''price'' = Some JNull" by (simp add: example_null_def)
  have scan: "scan_open_orders example_parser [example_buy, example_null, example_sell] new_scan =
     Inl TypeError"
    by (simp only: scan_new e option.case)
  have tick: "grid_tick (\<lambda>p. True) example_parser example_levels (Some (65 / 100))
       [example_buy, example_null, example_sell] = (new_cycle, Some TypeError)"
    by (simp only: grid_tick_def option.case scan sum.case)
  have none: "placements (grid_tick (\<lambda>p. True) example_parser example_levels (Some (65 / 100))
       [example_buy, example_null, example_sell]) = []"
    unfolding tick by (simp add: placements_def new_cycle_def)
  from price scan tick none without show ?thesis by (intro conjI)
qed



end
